theory Spec2Isabelle
  imports Main "HOL-Library.Word"
begin

section \<open>The chat server: data model\<close>

text \<open>
  A shallow embedding of the chat server (the C program that begins with
  \<^verbatim>\<open>#define MAX_CLIENTS 15\<close>). C strings are \<^typ>\<open>string\<close> (the bytes before the
  terminating NUL), a \<^verbatim>\<open>Client*\<close> is the index of the client in the global array
  \<^verbatim>\<open>clients\<close>, and a semaphore is its counter.
\<close>

abbreviation MAX_CLIENTS :: nat where "MAX_CLIENTS \<equiv> 15"
abbreviation MAX_ROOMS :: nat where "MAX_ROOMS \<equiv> 10"
abbreviation MAX_USERNAME_LEN :: nat where "MAX_USERNAME_LEN \<equiv> 16"
abbreviation MAX_ROOM_NAME_LEN :: nat where "MAX_ROOM_NAME_LEN \<equiv> 32"
abbreviation MAX_FILE_SIZE :: int where "MAX_FILE_SIZE \<equiv> 3145728"
abbreviation MAX_UPLOAD_QUEUE :: nat where "MAX_UPLOAD_QUEUE \<equiv> 5"
abbreviation BUFFER_SIZE :: nat where "BUFFER_SIZE \<equiv> 4096"
abbreviation SIGINT :: int where "SIGINT \<equiv> 2"

text \<open>
  \<^verbatim>\<open>S_IFREG\<close> comes from the system header \<^verbatim>\<open>sys/stat.h\<close>; on Linux it is octal
  0100000.
\<close>

abbreviation S_IFREG :: "32 word" where "S_IFREG \<equiv> 0x8000"

record Client =
  socket :: int
  username :: string
  current_room :: string
  addr :: string
  active :: bool

text \<open>
  The field \<open>addr\<close> holds the peer address in the dotted form that \<^verbatim>\<open>inet_ntop\<close> prints.
  In a \<open>Room\<close> the array \<^verbatim>\<open>members\<close> and its \<^verbatim>\<open>member_count\<close> are one list: the first
  \<^verbatim>\<open>member_count\<close> entries of the array, so \<^verbatim>\<open>member_count\<close> is the length of the list.
  Both structs have a field \<open>active\<close>: they are written \<open>Client.active\<close> and
  \<open>Room.active\<close>.
\<close>

record Room =
  name :: string
  members :: "nat list"
  active :: bool

record FileTransfer =
  filename :: string
  sender :: string
  receiver :: string
  file_size :: nat
  file_data :: "string option"
  timestamp :: int

text \<open>
  The upload queue. The semaphores \<open>slots\<close> and \<open>items\<close> are their counters; the mutex
  is not a field, because every critical section is one atomic step of the model.
\<close>

record UploadQueue =
  queue :: "FileTransfer list"
  front :: nat
  rear :: nat
  count :: int
  slots :: nat
  items :: nat

text \<open>What \<^verbatim>\<open>struct stat\<close> holds after the call of \<^verbatim>\<open>stat\<close>, as far as the server reads it.\<close>

record stat_buf =
  st_mode :: "32 word"
  st_size :: int

text \<open>
  Everything the server does to the outside world is an event, in the order of the calls:
  a \<^verbatim>\<open>send\<close> on a socket, a line of the log file (written and flushed by
  \<^verbatim>\<open>log_message\<close>; the time stamp in front of the line is left out), a line on standard
  output or standard error, a \<^verbatim>\<open>close\<close>, the \<^verbatim>\<open>fclose\<close> of the log file, and \<^verbatim>\<open>exit\<close>.
\<close>

datatype event =
    Send int string
  | Log string
  | Stdout string
  | Stderr string
  | Close int
  | Fclose
  | Exit int

text \<open>
  The global variables, the trace of events, and what the threads hold between two
  atomic steps: \<open>worker_transfer\<close> is the local variable \<^verbatim>\<open>transfer\<close> of
  \<^verbatim>\<open>file_transfer_handler\<close> from the moment it has taken a record out of the queue until
  it posts \<open>slots\<close>; \<open>blocked\<close> lists the client threads that wait in
  \<^verbatim>\<open>sem_wait(&upload_queue.slots)\<close> inside \<^verbatim>\<open>handle_file_send\<close>, each with the
  arguments and the \<^verbatim>\<open>stat\<close> buffer of its call.
\<close>

record server =
  clients :: "Client list"
  rooms :: "Room list"
  upload_queue :: UploadQueue
  server_socket :: int
  server_running :: bool
  trace :: "event list"
  worker_transfer :: "FileTransfer option"
  blocked :: "(nat \<times> string \<times> string \<times> stat_buf) list"

section \<open>Output\<close>

definition send_to_client :: "int \<Rightarrow> string \<Rightarrow> server \<Rightarrow> server" where
  "send_to_client fd msg s = s\<lparr>trace := trace s @ [Send fd msg]\<rparr>"

definition log_message :: "string \<Rightarrow> server \<Rightarrow> server" where
  "log_message msg s = s\<lparr>trace := trace s @ [Log msg]\<rparr>"

definition printf :: "string \<Rightarrow> server \<Rightarrow> server" where
  "printf msg s = s\<lparr>trace := trace s @ [Stdout msg]\<rparr>"

definition perror :: "string \<Rightarrow> server \<Rightarrow> server" where
  "perror msg s = s\<lparr>trace := trace s @ [Stderr msg]\<rparr>"

text \<open>\<^verbatim>\<open>snprintf(buf, n, ...)\<close> keeps at most \<open>n - 1\<close> bytes of the formatted text.\<close>

definition snprintf :: "nat \<Rightarrow> string \<Rightarrow> string" where
  "snprintf n str = take (n - 1) str"

text \<open>The conversions \<^verbatim>\<open>%zu\<close> and \<^verbatim>\<open>%d\<close>.\<close>

fun dec :: "nat \<Rightarrow> string" where
  "dec n = (if n < 10 then [''0123456789'' ! n]
            else dec (n div 10) @ [''0123456789'' ! (n mod 10)])"

declare dec.simps [simp del]

text \<open>A string between two apostrophes, as the format \<^verbatim>\<open>'%s'\<close> prints it.\<close>

abbreviation quoted :: "string \<Rightarrow> string" where
  "quoted x \<equiv> CHR 0x27 # x @ [CHR 0x27]"

definition show_int :: "int \<Rightarrow> string" where
  "show_int k = (if k < 0 then CHR ''-'' # dec (nat (- k)) else dec (nat k))"


section \<open>Validation of names\<close>

text \<open>
  \<^verbatim>\<open>strrchr(s, c)\<close>: the suffix of \<open>s\<close> that starts at the last occurrence of \<open>c\<close>,
  \<open>None\<close> for the NULL result. (The source only calls it with \<open>c = '.'\<close>, so the
  case \<open>c = NUL\<close> of the C function does not arise.)
\<close>

fun strrchr :: "string \<Rightarrow> char \<Rightarrow> string option" where
  "strrchr [] c = None"
| "strrchr (x # xs) c =
     (case strrchr xs c of
        Some r \<Rightarrow> Some r
      | None \<Rightarrow> if x = c then Some (x # xs) else None)"

definition validate_filename :: "string \<Rightarrow> bool" where
  "validate_filename fname =
     (if length fname < 5 then False
      else case strrchr fname (CHR ''.'') of
             None \<Rightarrow> False
           | Some ext \<Rightarrow> ext = ''.txt'' \<or> ext = ''.pdf'' \<or> ext = ''.jpg'' \<or> ext = ''.png'')"

definition is_alnum :: "char \<Rightarrow> bool" where
  "is_alnum c =
     (let n = (of_char c :: nat)
      in (97 \<le> n \<and> n \<le> 122) \<or> (65 \<le> n \<and> n \<le> 90) \<or> (48 \<le> n \<and> n \<le> 57))"

definition validate_username :: "string \<Rightarrow> bool" where
  "validate_username uname =
     (if length uname = 0 \<or> length uname > MAX_USERNAME_LEN then False
      else list_all is_alnum uname)"

definition validate_room_name :: "string \<Rightarrow> bool" where
  "validate_room_name room_name =
     (if length room_name = 0 \<or> length room_name > MAX_ROOM_NAME_LEN then False
      else list_all is_alnum room_name)"

text \<open>
  The rule in the words of the specification: the part of \<open>f\<close> from its last dot on.
  It is only meaningful when \<open>f\<close> contains a dot.
\<close>

definition suffix_from_last_dot :: "string \<Rightarrow> string" where
  "suffix_from_last_dot f = CHR ''.'' # rev (takeWhile (\<lambda>c. c \<noteq> CHR ''.'') (rev f))"

section \<open>Registries\<close>

text \<open>
  \<^verbatim>\<open>find_client_by_username\<close>: the first slot that is active and carries the name.
  \<open>find_room\<close> is the loop over \<^verbatim>\<open>rooms\<close> that \<^verbatim>\<open>broadcast_to_room\<close>,
  \<^verbatim>\<open>handle_leave_room\<close> and \<^verbatim>\<open>find_or_create_room\<close> each write out: the first active
  room of that name.
\<close>

definition find_client_by_username :: "string \<Rightarrow> server \<Rightarrow> nat option" where
  "find_client_by_username uname s =
     find (\<lambda>i. Client.active (clients s ! i) \<and> username (clients s ! i) = uname)
       [0..<MAX_CLIENTS]"

definition find_room :: "string \<Rightarrow> server \<Rightarrow> nat option" where
  "find_room room_name s =
     find (\<lambda>r. Room.active (rooms s ! r) \<and> name (rooms s ! r) = room_name) [0..<MAX_ROOMS]"

definition find_or_create_room :: "string \<Rightarrow> server \<Rightarrow> nat option \<times> server" where
  "find_or_create_room room_name s =
     (case find_room room_name s of
        Some r \<Rightarrow> (Some r, s)
      | None \<Rightarrow>
          (case find (\<lambda>r. \<not> Room.active (rooms s ! r)) [0..<MAX_ROOMS] of
             Some r \<Rightarrow>
               (Some r,
                s\<lparr>rooms := (rooms s)[r := \<lparr>name = room_name, members = [], active = True\<rparr>]\<rparr>)
           | None \<Rightarrow> (None, s)))"

section \<open>Rooms\<close>

text \<open>The inner loop of \<^verbatim>\<open>broadcast_to_room\<close> over the members of the room found.\<close>

fun broadcast_members :: "nat list \<Rightarrow> string \<Rightarrow> string \<Rightarrow> string \<Rightarrow> server \<Rightarrow> server" where
  "broadcast_members [] room_name msg sndr s = s"
| "broadcast_members (m # ms) room_name msg sndr s =
     broadcast_members ms room_name msg sndr
       (if Client.active (clients s ! m) \<and> username (clients s ! m) \<noteq> sndr
        then send_to_client (socket (clients s ! m))
               (snprintf BUFFER_SIZE
                  (''['' @ room_name @ ''] '' @ sndr @ '': '' @ msg @ ''\<newline>'')) s
        else s)"

definition broadcast_to_room :: "string \<Rightarrow> string \<Rightarrow> string \<Rightarrow> server \<Rightarrow> server" where
  "broadcast_to_room room_name msg sndr s =
     (case find_room room_name s of
        None \<Rightarrow> s
      | Some r \<Rightarrow> broadcast_members (members (rooms s ! r)) room_name msg sndr s)"

definition handle_leave_room :: "nat \<Rightarrow> server \<Rightarrow> server" where
  "handle_leave_room i s =
     (let c = clients s ! i in
      if length (current_room c) = 0
      then send_to_client (socket c) ''[ERROR] You are not in any room.\<newline>'' s
      else
        let s1 = (case find_room (current_room c) s of
                    None \<Rightarrow> s
                  | Some r \<Rightarrow>
                      let ms = remove1 i (members (rooms s ! r));
                          room = (rooms s ! r)\<lparr>members := ms\<rparr>;
                          room' = (if length ms = 0 then room\<lparr>Room.active := False\<rparr> else room)
                      in s\<lparr>rooms := (rooms s)[r := room']\<rparr>);
            s2 = send_to_client (socket c)
                   (snprintf 256 (''[SUCCESS] Left room '' @ quoted (current_room c) @ ''\<newline>'')) s1;
            s3 = log_message
                   (''[LEAVE] user '' @ quoted (username c) @ '' left room '' @ quoted (current_room c)) s2
        in s3\<lparr>clients := (clients s3)[i := (clients s3 ! i)\<lparr>current_room := []\<rparr>]\<rparr>)"

definition handle_join_room :: "nat \<Rightarrow> string \<Rightarrow> server \<Rightarrow> server" where
  "handle_join_room i room_name s =
     (if \<not> validate_room_name room_name
      then send_to_client (socket (clients s ! i))
             ''[ERROR] Invalid room name. Use alphanumeric characters only.\<newline>'' s
      else
        let s1 = (if length (current_room (clients s ! i)) > 0 then handle_leave_room i s else s)
        in case find_or_create_room room_name s1 of
             (None, s2) \<Rightarrow>
               send_to_client (socket (clients s2 ! i)) ''[ERROR] Unable to join room.\<newline>'' s2
           | (Some r, s2) \<Rightarrow>
               if length (members (rooms s2 ! r)) \<ge> MAX_CLIENTS
               then send_to_client (socket (clients s2 ! i)) ''[ERROR] Room is full.\<newline>'' s2
               else
                 let room = rooms s2 ! r;
                     s3 = s2\<lparr>rooms := (rooms s2)[r := room\<lparr>members := members room @ [i]\<rparr>],
                             clients := (clients s2)[i := (clients s2 ! i)\<lparr>current_room := room_name\<rparr>]\<rparr>;
                     c = clients s3 ! i;
                     s4 = send_to_client (socket c)
                            (snprintf 256 (''[SUCCESS] Joined room '' @ quoted room_name @ ''\<newline>'')) s3;
                     s5 = log_message
                            (''[JOIN] user '' @ quoted (username c) @ '' joined room '' @ quoted room_name) s4
                 in printf (''[COMMAND] '' @ username c @ '' joined room '' @ quoted room_name @ ''\<newline>'') s5)"

definition handle_whisper :: "nat \<Rightarrow> string \<Rightarrow> string \<Rightarrow> server \<Rightarrow> server" where
  "handle_whisper i target msg s =
     (let c = clients s ! i in
      case find_client_by_username target s of
        None \<Rightarrow> send_to_client (socket c) ''[ERROR] User not found or offline.\<newline>'' s
      | Some t \<Rightarrow>
          if \<not> Client.active (clients s ! t)
          then send_to_client (socket c) ''[ERROR] User not found or offline.\<newline>'' s
          else
            let s1 = send_to_client (socket (clients s ! t))
                       (snprintf BUFFER_SIZE
                          (''[WHISPER from '' @ username c @ '']: '' @ msg @ ''\<newline>'')) s;
                s2 = send_to_client (socket c) ''[SUCCESS] Whisper sent.\<newline>'' s1;
                s3 = log_message
                       (''[WHISPER] '' @ username c @ '' to '' @ target @ '': '' @ msg) s2
            in printf (''[COMMAND] '' @ username c @ '' sent whisper to '' @ target @ ''\<newline>'') s3)"

definition handle_broadcast :: "nat \<Rightarrow> string \<Rightarrow> server \<Rightarrow> server" where
  "handle_broadcast i msg s =
     (let c = clients s ! i in
      if length (current_room c) = 0
      then send_to_client (socket c) ''[ERROR] Join a room first.\<newline>'' s
      else
        let s1 = broadcast_to_room (current_room c) msg (username c) s;
            s2 = send_to_client (socket c) ''[SUCCESS] Message broadcasted.\<newline>'' s1;
            s3 = log_message (''[BROADCAST] user '' @ quoted (username c) @ '': '' @ msg) s2
        in printf (''[COMMAND] '' @ username c @ '' broadcasted to '' @ quoted (current_room c)
                     @ ''\<newline>'') s3)"

section \<open>File transfers\<close>

text \<open>
  The size stored in a record: \<^verbatim>\<open>(st.st_mode & S_IFREG) ? st.st_size : 1024\<close>, converted
  to \<^verbatim>\<open>size_t\<close> (64 bits).
\<close>

definition declared_size :: "stat_buf \<Rightarrow> nat" where
  "declared_size st =
     (if and (st_mode st) S_IFREG \<noteq> 0 then nat (st_size st mod 2 ^ 64) else 1024)"

text \<open>
  The critical section that both branches of \<^verbatim>\<open>handle_file_send\<close> write out, with the
  \<^verbatim>\<open>sem_post(&upload_queue.items)\<close> that follows it: fill the record at \<open>rear\<close>, advance
  \<open>rear\<close>, count up, post \<open>items\<close>. \<open>now\<close> is the value of \<^verbatim>\<open>time(NULL)\<close>.
\<close>

definition enqueue_transfer ::
  "nat \<Rightarrow> string \<Rightarrow> string \<Rightarrow> stat_buf \<Rightarrow> int \<Rightarrow> server \<Rightarrow> server" where
  "enqueue_transfer i fname target st now s =
     (let q = upload_queue s;
          t = \<lparr>filename = fname, sender = username (clients s ! i), receiver = target,
               file_size = declared_size st, file_data = None, timestamp = now\<rparr>
      in s\<lparr>upload_queue :=
             q\<lparr>queue := (queue q)[rear q := t],
               rear := (rear q + 1) mod MAX_UPLOAD_QUEUE,
               count := count q + 1,
               items := items q + 1\<rparr>\<rparr>)"

text \<open>
  \<^verbatim>\<open>handle_file_send\<close> up to the point where it returns or blocks. \<open>rc\<close> is what
  \<^verbatim>\<open>stat\<close> returned and \<open>st\<close> what the buffer holds after the call (anything at all when
  \<^verbatim>\<open>stat\<close> failed, since the buffer is not initialised). \<^verbatim>\<open>sem_trywait\<close> succeeds exactly
  when the counter of \<open>slots\<close> is positive. When it fails the thread sends the notice and
  waits in \<^verbatim>\<open>sem_wait\<close>: it is entered into \<open>blocked\<close>.
\<close>

definition handle_file_send ::
  "nat \<Rightarrow> string \<Rightarrow> string \<Rightarrow> int \<Rightarrow> stat_buf \<Rightarrow> int \<Rightarrow> server \<Rightarrow> server" where
  "handle_file_send i fname target rc st now s =
     (let c = clients s ! i in
      if \<not> validate_filename fname
      then send_to_client (socket c)
             ''[ERROR] Invalid file type. Allowed: .txt, .pdf, .jpg, .png\<newline>'' s
      else if (case find_client_by_username target s of
                 None \<Rightarrow> True
               | Some t \<Rightarrow> \<not> Client.active (clients s ! t))
      then send_to_client (socket c) ''[ERROR] Target user not found or offline.\<newline>'' s
      else if rc = 0 \<and> st_size st > MAX_FILE_SIZE
      then log_message
             (''[ERROR] File '' @ quoted fname @ '' from user '' @ quoted (username c)
                @ '' exceeds size limit'')
             (send_to_client (socket c) ''[ERROR] File exceeds size limit (3MB).\<newline>'' s)
      else if slots (upload_queue s) > 0
      then
        let s1 = s\<lparr>upload_queue := (upload_queue s)\<lparr>slots := slots (upload_queue s) - 1\<rparr>\<rparr>;
            s2 = enqueue_transfer i fname target st now s1;
            s3 = send_to_client (socket c) ''[SUCCESS] File added to upload queue.\<newline>'' s2;
            s4 = log_message
                   (''[FILE-QUEUE] Upload '' @ quoted fname @ '' from '' @ username c
                      @ '' added to queue. Queue size: '' @ show_int (count (upload_queue s3))) s3
        in printf (''[COMMAND] '' @ username c @ '' initiated file transfer to '' @ target
                     @ ''\<newline>'') s4
      else
        let s1 = send_to_client (socket c) ''[INFO] Upload queue full. Waiting...\<newline>'' s
        in s1\<lparr>blocked := blocked s1 @ [(i, fname, target, st)]\<rparr>)"

text \<open>
  The rest of the waiting branch: \<^verbatim>\<open>sem_wait\<close> returns (it can only when \<open>slots\<close> is
  positive), the record is entered and the sender is told. \<open>None\<close>: the thread of
  client \<open>i\<close> is not waiting, or it stays blocked.
\<close>

definition handle_file_send_resume :: "nat \<Rightarrow> int \<Rightarrow> server \<Rightarrow> server option" where
  "handle_file_send_resume i now s =
     (case map_of (blocked s) i of
        None \<Rightarrow> None
      | Some (fname, target, st) \<Rightarrow>
          if slots (upload_queue s) = 0 then None
          else
            let c = clients s ! i;
                s1 = s\<lparr>upload_queue := (upload_queue s)\<lparr>slots := slots (upload_queue s) - 1\<rparr>,
                       blocked := filter (\<lambda>p. fst p \<noteq> i) (blocked s)\<rparr>;
                s2 = enqueue_transfer i fname target st now s1;
                s3 = send_to_client (socket c) ''[SUCCESS] File queued for upload.\<newline>'' s2
            in Some (log_message
                 (''[FILE-QUEUE] Upload '' @ quoted fname @ '' from '' @ username c
                    @ '' added to queue after wait. Queue size: ''
                    @ show_int (count (upload_queue s3))) s3))"

text \<open>
  One round of the loop of \<^verbatim>\<open>file_transfer_handler\<close>, in two steps with the
  \<^verbatim>\<open>sleep(2)\<close> between them. The first: \<^verbatim>\<open>sem_wait(&upload_queue.items)\<close> returns (\<open>None\<close>
  while the counter is zero, or while the worker is not at the head of its loop), and
  unless the server is shutting down the record at \<open>front\<close> is copied out. The second:
  the receiver is looked up and notified, and \<open>slots\<close> is posted.
\<close>

definition file_transfer_handler_take :: "server \<Rightarrow> server option" where
  "file_transfer_handler_take s =
     (if worker_transfer s \<noteq> None \<or> items (upload_queue s) = 0 then None
      else
        let q = (upload_queue s)\<lparr>items := items (upload_queue s) - 1\<rparr>
        in if \<not> server_running s then Some (s\<lparr>upload_queue := q\<rparr>)
           else Some (s\<lparr>upload_queue :=
                          q\<lparr>front := (front q + 1) mod MAX_UPLOAD_QUEUE, count := count q - 1\<rparr>,
                        worker_transfer := Some (queue q ! front q)\<rparr>))"

definition file_transfer_handler_deliver :: "server \<Rightarrow> server option" where
  "file_transfer_handler_deliver s =
     (case worker_transfer s of
        None \<Rightarrow> None
      | Some t \<Rightarrow>
          let online = (case find_client_by_username (receiver t) s of
                          None \<Rightarrow> None
                        | Some r \<Rightarrow> if Client.active (clients s ! r) then Some r else None);
              s1 = (case online of
                      Some r \<Rightarrow>
                        log_message
                          (''[SEND FILE] '' @ quoted (filename t) @ '' sent from '' @ sender t
                             @ '' to '' @ receiver t @ '' (success)'')
                          (send_to_client (socket (clients s ! r))
                             (snprintf 512
                                (''[FILE] Received '' @ quoted (filename t) @ '' from ''
                                   @ sender t @ '' ('' @ dec (file_size t) @ '' bytes)\<newline>'')) s)
                    | None \<Rightarrow>
                        log_message
                          (''[SEND FILE] '' @ quoted (filename t) @ '' from '' @ sender t
                             @ '' to '' @ receiver t @ '' (failed - user offline)'') s)
          in Some (s1\<lparr>upload_queue := (upload_queue s1)\<lparr>slots := slots (upload_queue s1) + 1\<rparr>,
                      worker_transfer := None\<rparr>))"

section \<open>Sessions\<close>

text \<open>
  \<^verbatim>\<open>cleanup_client\<close>, statement by statement: leave the room, log, close the socket, then
  clear \<open>active\<close>, \<open>username\<close> and \<open>current_room\<close>. \<open>cleanup_client_states\<close> lists the
  state after each of these, in order.
\<close>

definition cleanup_leave :: "nat \<Rightarrow> server \<Rightarrow> server" where
  "cleanup_leave i s =
     (if length (current_room (clients s ! i)) > 0 then handle_leave_room i s else s)"

definition cleanup_log :: "nat \<Rightarrow> server \<Rightarrow> server" where
  "cleanup_log i s =
     (let c = clients s ! i in
      if length (username c) > 0
      then printf (''[DISCONNECT] Client '' @ username c @ '' disconnected.\<newline>'')
             (log_message
                (''[DISCONNECT] user '' @ quoted (username c)
                   @ '' lost connection. Cleaned up resources.'') s)
      else s)"

definition cleanup_close :: "nat \<Rightarrow> server \<Rightarrow> server" where
  "cleanup_close i s =
     (let c = clients s ! i in
      if socket c \<noteq> - 1
      then s\<lparr>trace := trace s @ [Close (socket c)],
             clients := (clients s)[i := c\<lparr>socket := - 1\<rparr>]\<rparr>
      else s)"

definition clear_active :: "nat \<Rightarrow> server \<Rightarrow> server" where
  "clear_active i s = s\<lparr>clients := (clients s)[i := (clients s ! i)\<lparr>Client.active := False\<rparr>]\<rparr>"

definition clear_username :: "nat \<Rightarrow> server \<Rightarrow> server" where
  "clear_username i s = s\<lparr>clients := (clients s)[i := (clients s ! i)\<lparr>username := []\<rparr>]\<rparr>"

definition clear_current_room :: "nat \<Rightarrow> server \<Rightarrow> server" where
  "clear_current_room i s =
     s\<lparr>clients := (clients s)[i := (clients s ! i)\<lparr>current_room := []\<rparr>]\<rparr>"

definition cleanup_client_states :: "nat \<Rightarrow> server \<Rightarrow> server list" where
  "cleanup_client_states i s =
     (if \<not> Client.active (clients s ! i) then []
      else
        let s1 = cleanup_leave i s;
            s2 = cleanup_log i s1;
            s3 = cleanup_close i s2;
            s4 = clear_active i s3;
            s5 = clear_username i s4;
            s6 = clear_current_room i s5
        in [s1, s2, s3, s4, s5, s6])"

definition cleanup_client :: "nat \<Rightarrow> server \<Rightarrow> server" where
  "cleanup_client i s =
     (if \<not> Client.active (clients s ! i) then s
      else clear_current_room i (clear_username i (clear_active i
             (cleanup_close i (cleanup_log i (cleanup_leave i s))))))"

text \<open>
  One round of the registration loop of \<^verbatim>\<open>client_handler\<close>, and, when the name is
  accepted, the greeting after the loop. \<open>rcv\<close> is what \<^verbatim>\<open>recv\<close> delivers: \<open>None\<close> for an
  error, otherwise the bytes on the wire, of which at most sixteen are taken; none taken
  is a result of zero. The name is the text before the first NUL and the first newline.
\<close>

definition received_name :: "string \<Rightarrow> string" where
  "received_name bytes =
     takeWhile (\<lambda>b. b \<noteq> CHR ''\<newline>'')
       (takeWhile (\<lambda>b. b \<noteq> CHR 0x00) (take MAX_USERNAME_LEN bytes))"

definition client_handler_register :: "nat \<Rightarrow> string option \<Rightarrow> server \<Rightarrow> server" where
  "client_handler_register i rcv s =
     (let c = clients s ! i in
      if \<not> (server_running s \<and> Client.active c) then cleanup_client i s
      else
        let s1 = send_to_client (socket c) ''Enter username (max 16 chars, alphanumeric): '' s
        in case rcv of
             None \<Rightarrow> cleanup_client i s1
           | Some bytes \<Rightarrow>
               if length (take MAX_USERNAME_LEN bytes) = 0 then cleanup_client i s1
               else
                 let uname = received_name bytes
                 in if \<not> validate_username uname
                    then send_to_client (socket c)
                           ''[ERROR] Invalid username. Use alphanumeric characters only.\<newline>'' s1
                    else if find_client_by_username uname s1 \<noteq> None
                    then log_message (''[REJECTED] Duplicate username attempted: '' @ uname)
                           (send_to_client (socket c)
                              ''[ERROR] Username already taken. Choose another.\<newline>'' s1)
                    else
                      let s2 = s1\<lparr>clients := (clients s1)[i := (clients s1 ! i)\<lparr>username := uname\<rparr>]\<rparr>;
                          s3 = log_message
                                 (''[LOGIN] user '' @ quoted uname @ '' connected from '' @ addr c) s2;
                          s4 = printf (''[CONNECT] New client connected: '' @ uname @ '' from ''
                                         @ addr c @ ''\<newline>'') s3;
                          s5 = send_to_client (socket c) ''[SUCCESS] Connected to chat server!\<newline>'' s4
                      in send_to_client (socket c)
                           ''Commands: /join <room>, /leave, /broadcast <msg>, /whisper <user> <msg>, /sendfile <file> <user>, /exit\<newline>''
                           s5)"

text \<open>The command \<^verbatim>\<open>/exit\<close>, and the end of the command loop that follows it.\<close>

definition client_handler_exit :: "nat \<Rightarrow> server \<Rightarrow> server" where
  "client_handler_exit i s =
     cleanup_client i (send_to_client (socket (clients s ! i)) ''[INFO] Goodbye!\<newline>'' s)"

section \<open>The main thread and the signal handler\<close>

text \<open>
  The state in which \<^verbatim>\<open>main\<close> enters its accept loop, when the port is valid and the
  log file and the listening socket \<open>sock\<close> could be opened.
\<close>

definition main_init :: "int \<Rightarrow> int \<Rightarrow> server" where
  "main_init port sock =
     \<lparr>clients = replicate MAX_CLIENTS
        \<lparr>socket = - 1, username = [], current_room = [], addr = [], active = False\<rparr>,
      rooms = replicate MAX_ROOMS \<lparr>name = [], members = [], active = False\<rparr>,
      upload_queue =
        \<lparr>queue = replicate MAX_UPLOAD_QUEUE
           \<lparr>filename = [], sender = [], receiver = [], file_size = 0, file_data = None,
            timestamp = 0\<rparr>,
         front = 0, rear = 0, count = 0, slots = MAX_UPLOAD_QUEUE, items = 0\<rparr>,
      server_socket = sock,
      server_running = True,
      trace = [Log (''[SERVER] Chat server started on port '' @ show_int port),
               Stdout (''[INFO] Server listening on port '' @ show_int port @ ''...\<newline>'')],
      worker_transfer = None,
      blocked = []\<rparr>"

text \<open>
  One round of the accept loop; \<open>client_socket\<close> is what \<^verbatim>\<open>accept\<close> returned and
  \<open>client_addr\<close> the peer address.
\<close>

definition main_accept :: "int \<Rightarrow> string \<Rightarrow> server \<Rightarrow> server" where
  "main_accept client_socket client_addr s =
     (if client_socket = - 1
      then (if server_running s then perror ''Accept failed'' s else s)
      else
        case find (\<lambda>i. \<not> Client.active (clients s ! i)) [0..<MAX_CLIENTS] of
          None \<Rightarrow>
            (let s1 = send_to_client client_socket ''[ERROR] Server full. Try again later.\<newline>'' s
             in s1\<lparr>trace := trace s1 @ [Close client_socket]\<rparr>)
        | Some slot \<Rightarrow>
            s\<lparr>clients := (clients s)[slot :=
                 \<lparr>socket = client_socket, username = [], current_room = [],
                  addr = client_addr, active = True\<rparr>]\<rparr>)"

text \<open>The loop of \<^verbatim>\<open>signal_handler\<close> over the client slots, with its counter.\<close>

fun notify_clients :: "nat list \<Rightarrow> int \<Rightarrow> server \<Rightarrow> int \<times> server" where
  "notify_clients [] active_count s = (active_count, s)"
| "notify_clients (i # rest) active_count s =
     (if Client.active (clients s ! i)
      then notify_clients rest (active_count + 1)
             (send_to_client (socket (clients s ! i))
                ''[SERVER] Server shutting down. Goodbye!\<newline>'' s)
      else notify_clients rest active_count s)"

definition signal_handler :: "int \<Rightarrow> server \<Rightarrow> server" where
  "signal_handler sig s =
     (if sig = SIGINT
      then
        let s1 = printf ''\<newline>[SHUTDOWN] SIGINT received. Shutting down server...\<newline>'' s;
            s2 = s1\<lparr>server_running := False\<rparr>;
            (active_count, s3) = notify_clients [0..<MAX_CLIENTS] 0 s2;
            s4 = log_message
                   (''[SHUTDOWN] SIGINT received. Disconnecting '' @ show_int active_count
                      @ '' clients, saving logs.'') s3
        in s4\<lparr>trace := trace s4 @ [Close (server_socket s4), Fclose, Exit 0]\<rparr>
      else s)"

section \<open>The system as a whole\<close>

text \<open>
  What has been sent on a socket and what has been logged, read off a trace.
\<close>

definition sent_to :: "int \<Rightarrow> event list \<Rightarrow> string list" where
  "sent_to fd tr =
     concat (map (\<lambda>e. case e of Send fd' m \<Rightarrow> (if fd' = fd then [m] else []) | _ \<Rightarrow> []) tr)"

definition logged :: "event list \<Rightarrow> string list" where
  "logged tr = concat (map (\<lambda>e. case e of Log m \<Rightarrow> [m] | _ \<Rightarrow> []) tr)"

text \<open>
  A client thread is in its registration loop while its slot is active and has no name,
  and in its command loop once it has a name, unless it waits for a queue slot.
\<close>

definition registering :: "server \<Rightarrow> nat \<Rightarrow> bool" where
  "registering s i =
     (i < MAX_CLIENTS \<and> Client.active (clients s ! i) \<and> username (clients s ! i) = [])"

definition commanding :: "server \<Rightarrow> nat \<Rightarrow> bool" where
  "commanding s i =
     (i < MAX_CLIENTS \<and> Client.active (clients s ! i) \<and> username (clients s ! i) \<noteq> []
      \<and> i \<notin> set (map fst (blocked s)))"

text \<open>
  The atomic steps of the running server: one round of the accept loop, one round of a
  registration loop, one command of a client (a handler, an answer that only sends to
  the client itself, such as a usage error, the exit of the client or the loss of its
  connection), the wake-up of a waiting sender, one of the two steps of the transfer
  worker, or the signal handler, after which the process has exited and no step
  follows. \<^verbatim>\<open>accept\<close> returns -1 or a descriptor that is not open, and the open client
  sockets are those of the active slots.
\<close>

inductive step :: "server \<Rightarrow> server \<Rightarrow> bool" where
  accept: "server_running s \<Longrightarrow> - 1 \<le> fd \<Longrightarrow>
     \<forall>j < MAX_CLIENTS. Client.active (clients s ! j) \<longrightarrow> socket (clients s ! j) \<noteq> fd \<Longrightarrow>
     step s (main_accept fd a s)"
| register: "server_running s \<Longrightarrow> registering s i \<Longrightarrow>
     step s (client_handler_register i rcv s)"
| join: "server_running s \<Longrightarrow> commanding s i \<Longrightarrow> step s (handle_join_room i room_name s)"
| leave: "server_running s \<Longrightarrow> commanding s i \<Longrightarrow> step s (handle_leave_room i s)"
| broadcast: "server_running s \<Longrightarrow> commanding s i \<Longrightarrow> step s (handle_broadcast i msg s)"
| whisper: "server_running s \<Longrightarrow> commanding s i \<Longrightarrow> step s (handle_whisper i target msg s)"
| sendfile: "server_running s \<Longrightarrow> commanding s i \<Longrightarrow>
     step s (handle_file_send i fname target rc st now s)"
| answer: "server_running s \<Longrightarrow> commanding s i \<Longrightarrow>
     step s (send_to_client (socket (clients s ! i)) msg s)"
| quit: "server_running s \<Longrightarrow> commanding s i \<Longrightarrow> step s (client_handler_exit i s)"
| disconnect: "server_running s \<Longrightarrow> commanding s i \<Longrightarrow> step s (cleanup_client i s)"
| resume: "server_running s \<Longrightarrow> handle_file_send_resume i now s = Some s' \<Longrightarrow> step s s'"
| take: "server_running s \<Longrightarrow> file_transfer_handler_take s = Some s' \<Longrightarrow> step s s'"
| deliver: "server_running s \<Longrightarrow> file_transfer_handler_deliver s = Some s' \<Longrightarrow> step s s'"
| interrupt: "server_running s \<Longrightarrow> step s (signal_handler SIGINT s)"

text \<open>The states the server can be in between two steps.\<close>

inductive reachable :: "server \<Rightarrow> bool" where
  start: "0 < port \<Longrightarrow> port \<le> 10000 \<Longrightarrow> reachable (main_init port sock)"
| next_state: "reachable s \<Longrightarrow> step s s' \<Longrightarrow> reachable s'"

section \<open>The upload queue as a FIFO\<close>

text \<open>
  The records that wait in the circular buffer, oldest first: \<open>count\<close> entries from
  \<open>front\<close> on, around the end of the array.
\<close>

definition pending_transfers :: "server \<Rightarrow> FileTransfer list" where
  "pending_transfers s =
     (let q = upload_queue s
      in map (\<lambda>k. queue q ! ((front q + k) mod MAX_UPLOAD_QUEUE)) [0..<nat (count q)])"


definition passes_checks :: "server \<Rightarrow> string \<Rightarrow> string \<Rightarrow> int \<Rightarrow> stat_buf \<Rightarrow> bool" where
  "passes_checks s fname target rc st =
     (validate_filename fname \<and> find_client_by_username target s \<noteq> None
      \<and> \<not> (rc = 0 \<and> st_size st > MAX_FILE_SIZE))"

text \<open>
  The part of the state that the queue protocol is about, and what holds of it between
  steps: the indices stay in the array, \<open>rear\<close> is \<open>count\<close> places after \<open>front\<close>,
  \<open>count\<close> equals the counter of \<open>items\<close>, and the permits of both semaphores together
  with the one the worker holds while it delivers a record add up to the capacity.
\<close>

definition qstate :: "server \<Rightarrow> UploadQueue \<times> FileTransfer option" where
  "qstate s = (upload_queue s, worker_transfer s)"

definition queue_inv :: "server \<Rightarrow> bool" where
  "queue_inv s =
     (let q = upload_queue s in
      length (queue q) = MAX_UPLOAD_QUEUE \<and> front q < MAX_UPLOAD_QUEUE \<and>
      rear q = (front q + items q) mod MAX_UPLOAD_QUEUE \<and>
      count q = int (items q) \<and>
      slots q + items q + (case worker_transfer s of None \<Rightarrow> 0 | Some t \<Rightarrow> 1) = MAX_UPLOAD_QUEUE)"






section \<open>Example runs\<close>

text \<open>
  A server on port 8080 with listening socket 3. Alice connects on socket 4 and bob on
  socket 5, and both register; then alice sends bob a file of 100 bytes; then the
  worker takes that record out of the queue.
\<close>

definition one_user :: server where
  "one_user =
     client_handler_register 0 (Some ''alice\<newline>'')
       (main_accept 4 ''10.0.0.1'' (main_init 8080 3))"

definition two_users :: server where
  "two_users =
     client_handler_register 1 (Some ''bob\<newline>'') (main_accept 5 ''10.0.0.2'' one_user)"

definition notes_txt :: FileTransfer where
  "notes_txt =
     \<lparr>filename = ''notes.txt'', sender = ''alice'', receiver = ''bob'', file_size = 100,
      file_data = None, timestamp = 1700000000\<rparr>"

definition one_queued :: server where
  "one_queued =
     handle_file_send 0 ''notes.txt'' ''bob'' 0 \<lparr>st_mode = 0x81A4, st_size = 100\<rparr> 1700000000
       two_users"








definition names_unique :: "server \<Rightarrow> bool" where
  "names_unique s =
     (\<forall>i<MAX_CLIENTS. \<forall>j<MAX_CLIENTS.
        i \<noteq> j \<and> Client.active (clients s ! i) \<and> Client.active (clients s ! j) \<longrightarrow>
        username (clients s ! i) \<noteq> username (clients s ! j)
        \<or> username (clients s ! i) = [] \<or> username (clients s ! j) = [])"

definition clients_inv :: "server \<Rightarrow> bool" where
  "clients_inv s =
     (length (clients s) = MAX_CLIENTS \<and> names_unique s \<and>
      (\<forall>i<MAX_CLIENTS. \<forall>j<MAX_CLIENTS.
         i \<noteq> j \<and> Client.active (clients s ! i) \<and> Client.active (clients s ! j) \<longrightarrow>
         socket (clients s ! i) \<noteq> socket (clients s ! j)) \<and>
      (\<forall>i<MAX_CLIENTS. Client.active (clients s ! i) \<longrightarrow> 0 \<le> socket (clients s ! i)) \<and>
      (\<forall>i<MAX_CLIENTS. \<not> Client.active (clients s ! i) \<longrightarrow>
         username (clients s ! i) = [] \<and> current_room (clients s ! i) = []) \<and>
      (\<forall>i \<in> set (map fst (blocked s)).
         i < MAX_CLIENTS \<and> Client.active (clients s ! i) \<and> username (clients s ! i) \<noteq> []) \<and>
      distinct (map fst (blocked s)))"










section \<open>Properties of validation\<close>

lemma strrchr_None: "strrchr s c = None \<longleftrightarrow> c \<notin> set s"
  by (induction s) (auto split: option.splits)

lemma strrchr_Some:
  "c \<in> set s \<Longrightarrow> strrchr s c = Some (c # rev (takeWhile (\<lambda>d. d \<noteq> c) (rev s)))"
proof (induction s)
  case Nil
  then show ?case by simp
next
  case (Cons x xs)
  show ?case
  proof (cases "c \<in> set xs")
    case True
    with Cons.IH show ?thesis
      by simp
  next
    case False
    with Cons.prems have xc: "x = c" by simp
    from False have "strrchr xs c = None" by (simp add: strrchr_None)
    moreover from False have "\<forall>d \<in> set (rev xs). d \<noteq> c" by auto
    then have "takeWhile (\<lambda>d. d \<noteq> c) (rev xs @ [c]) = rev xs"
      by (subst takeWhile_append2) auto
    ultimately show ?thesis using xc by simp
  qed
qed

text \<open>
  Claim C10. \<open>validate_filename\<close> accepts \<open>f\<close> exactly when \<open>f\<close> has at least five
  characters, contains a dot, and the part of \<open>f\<close> from its last dot on is one of
  \<open>.txt\<close>, \<open>.pdf\<close>, \<open>.jpg\<close>, \<open>.png\<close>, compared byte for byte. So the bare extension
  \<open>.txt\<close> (four characters) and the upper-case \<open>a.TXT\<close> are both rejected.
\<close>

theorem validate_filename_iff:
  "validate_filename f =
     (5 \<le> length f \<and> CHR ''.'' \<in> set f \<and>
      suffix_from_last_dot f \<in> set [''.txt'', ''.pdf'', ''.jpg'', ''.png''])
   \<and> validate_filename ''.txt'' = False
   \<and> validate_filename ''a.TXT'' = False
   \<and> validate_filename ''a.txt'' = True"
proof -
  have main: "validate_filename f =
     (5 \<le> length f \<and> CHR ''.'' \<in> set f \<and>
      suffix_from_last_dot f \<in> set [''.txt'', ''.pdf'', ''.jpg'', ''.png''])"
  proof (cases "CHR ''.'' \<in> set f")
    case True
    then show ?thesis
      by (auto simp: validate_filename_def suffix_from_last_dot_def strrchr_Some)
  next
    case False
    then have "strrchr f (CHR ''.'') = None" by (simp add: strrchr_None)
    with False show ?thesis by (simp add: validate_filename_def)
  qed
  have "validate_filename ''.txt'' = False"
    by (simp add: validate_filename_def)
  moreover have "validate_filename ''a.TXT'' = False"
    by (simp add: validate_filename_def)
  moreover have "validate_filename ''a.txt'' = True"
    by (simp add: validate_filename_def)
  ultimately show ?thesis using main by simp
qed

section \<open>Frame lemmas and the queue invariant\<close>

lemma send_to_client_fields [simp]:
  "clients (send_to_client fd m s) = clients s"
  "rooms (send_to_client fd m s) = rooms s"
  "upload_queue (send_to_client fd m s) = upload_queue s"
  "server_socket (send_to_client fd m s) = server_socket s"
  "server_running (send_to_client fd m s) = server_running s"
  "worker_transfer (send_to_client fd m s) = worker_transfer s"
  "blocked (send_to_client fd m s) = blocked s"
  "trace (send_to_client fd m s) = trace s @ [Send fd m]"
  by (simp_all add: send_to_client_def)

lemma log_message_fields [simp]:
  "clients (log_message m s) = clients s"
  "rooms (log_message m s) = rooms s"
  "upload_queue (log_message m s) = upload_queue s"
  "server_socket (log_message m s) = server_socket s"
  "server_running (log_message m s) = server_running s"
  "worker_transfer (log_message m s) = worker_transfer s"
  "blocked (log_message m s) = blocked s"
  "trace (log_message m s) = trace s @ [Log m]"
  by (simp_all add: log_message_def)

lemma printf_fields [simp]:
  "clients (printf m s) = clients s"
  "rooms (printf m s) = rooms s"
  "upload_queue (printf m s) = upload_queue s"
  "server_socket (printf m s) = server_socket s"
  "server_running (printf m s) = server_running s"
  "worker_transfer (printf m s) = worker_transfer s"
  "blocked (printf m s) = blocked s"
  "trace (printf m s) = trace s @ [Stdout m]"
  by (simp_all add: printf_def)

lemma perror_fields [simp]:
  "clients (perror m s) = clients s"
  "rooms (perror m s) = rooms s"
  "upload_queue (perror m s) = upload_queue s"
  "server_socket (perror m s) = server_socket s"
  "server_running (perror m s) = server_running s"
  "worker_transfer (perror m s) = worker_transfer s"
  "blocked (perror m s) = blocked s"
  "trace (perror m s) = trace s @ [Stderr m]"
  by (simp_all add: perror_def)

lemma qstate_out [simp]:
  "qstate (send_to_client fd m s) = qstate s"
  "qstate (log_message m s) = qstate s"
  "qstate (printf m s) = qstate s"
  "qstate (perror m s) = qstate s"
  by (simp_all add: qstate_def)

lemma qstate_upd [simp]:
  "qstate (s\<lparr>clients := cs\<rparr>) = qstate s"
  "qstate (s\<lparr>rooms := rs\<rparr>) = qstate s"
  "qstate (s\<lparr>trace := tr\<rparr>) = qstate s"
  "qstate (s\<lparr>blocked := b\<rparr>) = qstate s"
  "qstate (s\<lparr>server_running := b'\<rparr>) = qstate s"
  by (simp_all add: qstate_def)

lemma qstate_broadcast_members [simp]:
  "qstate (broadcast_members ms r m u s) = qstate s"
  by (induction ms r m u s rule: broadcast_members.induct) simp_all

lemma qstate_leave [simp]: "qstate (handle_leave_room i s) = qstate s"
  by (simp add: handle_leave_room_def Let_def split: option.split)

lemma qstate_find_or_create:
  "find_or_create_room r s = (ro, s') \<Longrightarrow> qstate s' = qstate s"
  by (auto simp: find_or_create_room_def split: option.splits)

lemma qstate_join [simp]: "qstate (handle_join_room i r s) = qstate s"
  by (auto simp: handle_join_room_def Let_def dest!: qstate_find_or_create
           split: option.split prod.split)


lemma qstate_broadcast [simp]: "qstate (handle_broadcast i m s) = qstate s"
  by (simp add: handle_broadcast_def broadcast_to_room_def Let_def split: option.split)

lemma qstate_whisper [simp]: "qstate (handle_whisper i t m s) = qstate s"
  by (simp add: handle_whisper_def Let_def split: option.split)

lemma qstate_cleanup [simp]: "qstate (cleanup_client i s) = qstate s"
  by (simp add: cleanup_client_def clear_current_room_def clear_username_def clear_active_def
        cleanup_close_def cleanup_log_def cleanup_leave_def Let_def)

lemma qstate_register [simp]: "qstate (client_handler_register i rcv s) = qstate s"
  by (simp add: client_handler_register_def Let_def split: option.split)

lemma qstate_exit [simp]: "qstate (client_handler_exit i s) = qstate s"
  by (simp add: client_handler_exit_def)

lemma qstate_accept [simp]: "qstate (main_accept fd a s) = qstate s"
  by (simp add: main_accept_def Let_def split: option.split)

lemma qstate_notify: "notify_clients is n s = (n', s') \<Longrightarrow> qstate s' = qstate s"
  by (induction "is" n s rule: notify_clients.induct) (auto split: if_splits)

lemma qstate_signal [simp]: "qstate (signal_handler sig s) = qstate s"
  by (auto simp: signal_handler_def Let_def dest!: qstate_notify split: prod.split)

lemma queue_inv_frame: "queue_inv s \<Longrightarrow> qstate s' = qstate s \<Longrightarrow> queue_inv s'"
  by (simp add: queue_inv_def qstate_def)

lemma ring_step: "0 < n \<Longrightarrow> (Suc f mod 5 + (n - Suc 0)) mod 5 = (f + n) mod 5"
  by (cases n) (simp_all add: mod_simps)

lemma queue_inv_init: "queue_inv (main_init port sock)"
  by (simp add: queue_inv_def main_init_def)

lemma queue_inv_enqueue:
  assumes "queue_inv s" "0 < slots (upload_queue s)"
  shows "queue_inv (enqueue_transfer i f t st now
           (s\<lparr>upload_queue := (upload_queue s)\<lparr>slots := slots (upload_queue s) - 1\<rparr>\<rparr>))"
  using assms
  by (simp add: queue_inv_def enqueue_transfer_def Let_def mod_simps split: option.splits)

lemma qstate_send:
  "qstate (handle_file_send i f t rc st now s) =
     (if validate_filename f
         \<and> \<not> (case find_client_by_username t s of
                  None \<Rightarrow> True | Some t \<Rightarrow> \<not> Client.active (clients s ! t))
         \<and> \<not> (rc = 0 \<and> st_size st > MAX_FILE_SIZE) \<and> 0 < slots (upload_queue s)
      then qstate (enqueue_transfer i f t st now
             (s\<lparr>upload_queue := (upload_queue s)\<lparr>slots := slots (upload_queue s) - 1\<rparr>\<rparr>))
      else qstate s)"
  by (auto simp: handle_file_send_def Let_def)

lemma queue_inv_send:
  assumes "queue_inv s"
  shows "queue_inv (handle_file_send i f t rc st now s)"
proof (cases "0 < slots (upload_queue s)")
  case True
  show ?thesis
  proof (cases "qstate (handle_file_send i f t rc st now s) = qstate s")
    case True
    with assms show ?thesis by (rule queue_inv_frame)
  next
    case False
    then have "qstate (handle_file_send i f t rc st now s) =
       qstate (enqueue_transfer i f t st now
             (s\<lparr>upload_queue := (upload_queue s)\<lparr>slots := slots (upload_queue s) - 1\<rparr>\<rparr>))"
      by (simp add: qstate_send split: if_splits)
    with queue_inv_enqueue [OF assms True, of i f t st now] show ?thesis
      by (rule queue_inv_frame)
  qed
next
  case False
  then have "qstate (handle_file_send i f t rc st now s) = qstate s"
    by (simp add: qstate_send)
  with assms show ?thesis by (rule queue_inv_frame)
qed

lemma queue_inv_resume:
  assumes "queue_inv s" "handle_file_send_resume i now s = Some s'"
  shows "queue_inv s'"
proof -
  from assms(2) obtain f t st where
    pos: "0 < slots (upload_queue s)" and
    s': "s' = log_message
           (''[FILE-QUEUE] Upload '' @ quoted f @ '' from '' @ username (clients s ! i)
              @ '' added to queue after wait. Queue size: ''
              @ show_int (count (upload_queue (enqueue_transfer i f t st now
                  (s\<lparr>upload_queue := (upload_queue s)\<lparr>slots := slots (upload_queue s) - 1\<rparr>,
                     blocked := filter (\<lambda>p. fst p \<noteq> i) (blocked s)\<rparr>)))))
           (send_to_client (socket (clients s ! i)) ''[SUCCESS] File queued for upload.\<newline>''
              (enqueue_transfer i f t st now
                  (s\<lparr>upload_queue := (upload_queue s)\<lparr>slots := slots (upload_queue s) - 1\<rparr>,
                     blocked := filter (\<lambda>p. fst p \<noteq> i) (blocked s)\<rparr>)))"
    by (auto simp: handle_file_send_resume_def Let_def split: option.splits if_splits)
  have "qstate (enqueue_transfer i f t st now
                  (s\<lparr>upload_queue := (upload_queue s)\<lparr>slots := slots (upload_queue s) - 1\<rparr>,
                     blocked := filter (\<lambda>p. fst p \<noteq> i) (blocked s)\<rparr>))
        = qstate (enqueue_transfer i f t st now
                  (s\<lparr>upload_queue := (upload_queue s)\<lparr>slots := slots (upload_queue s) - 1\<rparr>\<rparr>))"
    by (simp add: qstate_def enqueue_transfer_def Let_def)
  with queue_inv_enqueue [OF assms(1) pos, of i f t st now] show ?thesis
    unfolding s' by (simp add: queue_inv_def qstate_def)
qed

lemma queue_inv_take:
  assumes "queue_inv s" "server_running s" "file_transfer_handler_take s = Some s'"
  shows "queue_inv s'"
proof -
  from assms(2,3) have idle: "worker_transfer s = None" and pos: "0 < items (upload_queue s)"
    and s': "s' = s\<lparr>upload_queue := (upload_queue s)
                  \<lparr>items := items (upload_queue s) - 1,
                   front := (front (upload_queue s) + 1) mod MAX_UPLOAD_QUEUE,
                   count := count (upload_queue s) - 1\<rparr>,
                worker_transfer := Some (queue (upload_queue s) ! front (upload_queue s))\<rparr>"
    by (auto simp: file_transfer_handler_take_def Let_def split: if_splits)
  from assms(1) idle pos ring_step [OF pos, of "front (upload_queue s)"] show ?thesis
    unfolding s' by (simp add: queue_inv_def Let_def)
qed

lemma deliver_queue:
  assumes "file_transfer_handler_deliver s = Some s'"
  shows "worker_transfer s \<noteq> None"
    and "upload_queue s' = (upload_queue s)\<lparr>slots := slots (upload_queue s) + 1\<rparr>"
    and "worker_transfer s' = None"
  using assms
  by (auto simp: file_transfer_handler_deliver_def Let_def split: option.splits)

lemma queue_inv_deliver:
  assumes "queue_inv s" "file_transfer_handler_deliver s = Some s'"
  shows "queue_inv s'"
  using assms(1) deliver_queue [OF assms(2)]
  by (auto simp: queue_inv_def Let_def)

lemma step_queue_inv: "step s s' \<Longrightarrow> queue_inv s \<Longrightarrow> queue_inv s'"
proof (induction rule: step.induct)
  case (sendfile s i fname target rc st now)
  then show ?case by (simp add: queue_inv_send)
next
  case (resume s i now s')
  then show ?case by (blast intro: queue_inv_resume)
next
  case (take s s')
  then show ?case by (blast intro: queue_inv_take)
next
  case (deliver s s')
  then show ?case by (blast intro: queue_inv_deliver)
qed ((erule queue_inv_frame, simp)+)

lemma reachable_queue_inv: "reachable s \<Longrightarrow> queue_inv s"
  by (induction rule: reachable.induct) (auto intro: queue_inv_init step_queue_inv)






section \<open>The example runs, evaluated\<close>

lemma client_slots: "[0..<MAX_CLIENTS] = [0, 1, 2, 3, 4, 5, 6, 7, 8, 9, 10, 11, 12, 13, 14]"
  by (simp add: upt_conv_Cons)

lemma all_client_slots: "(\<forall>j<MAX_CLIENTS. P j) = list_all P [0..<MAX_CLIENTS]"
  by (auto simp: list_all_iff)

lemma first_accept_fields:
  "clients (main_accept 4 ''10.0.0.1'' (main_init 8080 3)) =
     (replicate MAX_CLIENTS
        \<lparr>socket = - 1, username = [], current_room = [], addr = [], active = False\<rparr>)
     [0 := \<lparr>socket = 4, username = [], current_room = [], addr = ''10.0.0.1'', active = True\<rparr>]"
  "rooms (main_accept 4 ''10.0.0.1'' (main_init 8080 3)) =
     replicate MAX_ROOMS \<lparr>name = [], members = [], active = False\<rparr>"
  "server_running (main_accept 4 ''10.0.0.1'' (main_init 8080 3)) = True"
  "blocked (main_accept 4 ''10.0.0.1'' (main_init 8080 3)) = []"
  by (simp_all add: main_accept_def main_init_def client_slots)

lemma one_user_fields:
  "clients one_user =
     (replicate MAX_CLIENTS
        \<lparr>socket = - 1, username = [], current_room = [], addr = [], active = False\<rparr>)
     [0 := \<lparr>socket = 4, username = ''alice'', current_room = [], addr = ''10.0.0.1'',
             active = True\<rparr>]"
  "rooms one_user = replicate MAX_ROOMS \<lparr>name = [], members = [], active = False\<rparr>"
  "server_running one_user = True"
  "blocked one_user = []"
  by (simp_all add: one_user_def client_handler_register_def Let_def first_accept_fields
        validate_username_def is_alnum_def find_client_by_username_def client_slots
        received_name_def)

lemma second_accept_fields:
  "clients (main_accept 5 ''10.0.0.2'' one_user) =
     (replicate MAX_CLIENTS
        \<lparr>socket = - 1, username = [], current_room = [], addr = [], active = False\<rparr>)
     [0 := \<lparr>socket = 4, username = ''alice'', current_room = [], addr = ''10.0.0.1'',
             active = True\<rparr>,
      1 := \<lparr>socket = 5, username = [], current_room = [], addr = ''10.0.0.2'', active = True\<rparr>]"
  "rooms (main_accept 5 ''10.0.0.2'' one_user) =
     replicate MAX_ROOMS \<lparr>name = [], members = [], active = False\<rparr>"
  "server_running (main_accept 5 ''10.0.0.2'' one_user) = True"
  "blocked (main_accept 5 ''10.0.0.2'' one_user) = []"
  by (simp_all add: main_accept_def one_user_fields client_slots)

lemma two_users_fields:
  "clients two_users =
     (replicate MAX_CLIENTS
        \<lparr>socket = - 1, username = [], current_room = [], addr = [], active = False\<rparr>)
     [0 := \<lparr>socket = 4, username = ''alice'', current_room = [], addr = ''10.0.0.1'',
             active = True\<rparr>,
      1 := \<lparr>socket = 5, username = ''bob'', current_room = [], addr = ''10.0.0.2'',
             active = True\<rparr>]"
  "rooms two_users = replicate MAX_ROOMS \<lparr>name = [], members = [], active = False\<rparr>"
  "server_running two_users = True"
  "blocked two_users = []"
  by (simp_all add: two_users_def client_handler_register_def Let_def second_accept_fields
        validate_username_def is_alnum_def find_client_by_username_def client_slots
        received_name_def)

lemma two_users_queue:
  "upload_queue two_users =
     \<lparr>queue = replicate MAX_UPLOAD_QUEUE
          \<lparr>filename = [], sender = [], receiver = [], file_size = 0, file_data = None,
           timestamp = 0\<rparr>,
       front = 0, rear = 0, count = 0, slots = MAX_UPLOAD_QUEUE, items = 0\<rparr>"
  "worker_transfer two_users = None"
proof -
  have "qstate two_users = qstate (main_init 8080 3)"
    by (simp add: two_users_def one_user_def)
  then show
    "upload_queue two_users =
       \<lparr>queue = replicate MAX_UPLOAD_QUEUE
            \<lparr>filename = [], sender = [], receiver = [], file_size = 0, file_data = None,
             timestamp = 0\<rparr>,
         front = 0, rear = 0, count = 0, slots = MAX_UPLOAD_QUEUE, items = 0\<rparr>"
    "worker_transfer two_users = None"
    by (simp_all add: qstate_def main_init_def)
qed

lemma reachable_two_users: "reachable two_users"
proof -
  have 0: "reachable (main_init 8080 3)"
    by (rule reachable.start) simp_all
  have "step (main_init 8080 3) (main_accept 4 ''10.0.0.1'' (main_init 8080 3))"
    by (rule step.accept) (simp_all add: main_init_def all_client_slots client_slots)
  with 0 have 1: "reachable (main_accept 4 ''10.0.0.1'' (main_init 8080 3))"
    by (rule reachable.next_state)
  have "step (main_accept 4 ''10.0.0.1'' (main_init 8080 3)) one_user"
    unfolding one_user_def
    by (rule step.register) (simp_all add: registering_def first_accept_fields)
  with 1 have 2: "reachable one_user"
    by (rule reachable.next_state)
  have "step one_user (main_accept 5 ''10.0.0.2'' one_user)"
    by (rule step.accept) (simp_all add: one_user_fields all_client_slots client_slots)
  with 2 have 3: "reachable (main_accept 5 ''10.0.0.2'' one_user)"
    by (rule reachable.next_state)
  have "step (main_accept 5 ''10.0.0.2'' one_user) two_users"
    unfolding two_users_def
    by (rule step.register) (simp_all add: registering_def second_accept_fields)
  with 3 show ?thesis
    by (rule reachable.next_state)
qed


lemma find_bob: "find_client_by_username ''bob'' two_users = Some 1"
  by (simp add: find_client_by_username_def two_users_fields client_slots)

lemma regular_100: "declared_size \<lparr>st_mode = 0x81A4, st_size = 100\<rparr> = 100"
  by (simp add: declared_size_def)

lemma one_queued_queue:
  "upload_queue one_queued =
     \<lparr>queue = (replicate MAX_UPLOAD_QUEUE
          \<lparr>filename = [], sender = [], receiver = [], file_size = 0, file_data = None,
           timestamp = 0\<rparr>)[0 := notes_txt],
       front = 0, rear = 1, count = 1, slots = 4, items = 1\<rparr>"
  "worker_transfer one_queued = None"
proof -
  have "qstate one_queued =
          qstate (enqueue_transfer 0 ''notes.txt'' ''bob'' \<lparr>st_mode = 0x81A4, st_size = 100\<rparr>
                    1700000000
                    (two_users\<lparr>upload_queue :=
                       (upload_queue two_users)\<lparr>slots := slots (upload_queue two_users) - 1\<rparr>\<rparr>))"
    unfolding one_queued_def
    by (simp add: qstate_send find_bob two_users_fields two_users_queue validate_filename_def)
  then show
    "upload_queue one_queued =
       \<lparr>queue = (replicate MAX_UPLOAD_QUEUE
            \<lparr>filename = [], sender = [], receiver = [], file_size = 0, file_data = None,
             timestamp = 0\<rparr>)[0 := notes_txt],
         front = 0, rear = 1, count = 1, slots = 4, items = 1\<rparr>"
    "worker_transfer one_queued = None"
    by (simp_all add: qstate_def enqueue_transfer_def Let_def two_users_queue two_users_fields
          regular_100 notes_txt_def)
qed

lemma reachable_one_queued: "reachable one_queued"
proof -
  have "step two_users one_queued"
    unfolding one_queued_def
    by (rule step.sendfile) (simp_all add: commanding_def two_users_fields)
  with reachable_two_users show ?thesis
    by (rule reachable.next_state)
qed

text \<open>
  Claim C6. Between steps, the counter \<open>count\<close> equals the counter of the semaphore
  \<open>items\<close>, and whenever the worker is not in the middle of a delivery the counters of
  \<open>slots\<close> and \<open>items\<close> add up to the capacity 5. It holds when \<^verbatim>\<open>main\<close> has initialised
  the queue and every step keeps it, the enqueue of a sender and the dequeue of the worker
  among them.
\<close>

theorem queue_balance:
  assumes "reachable s"
  shows "count (upload_queue s) = int (items (upload_queue s)) \<and>
         (worker_transfer s = None \<longrightarrow>
            slots (upload_queue s) + items (upload_queue s) = MAX_UPLOAD_QUEUE)"
  using reachable_queue_inv [OF assms]
  by (auto simp: queue_inv_def Let_def)

theorem queue_balance_witness:
  "reachable one_queued \<and> worker_transfer one_queued = None \<and>
   slots (upload_queue one_queued) = 4 \<and> items (upload_queue one_queued) = 1 \<and>
   count (upload_queue one_queued) = 1 \<and>
   slots (upload_queue one_queued) + items (upload_queue one_queued) = MAX_UPLOAD_QUEUE"
proof -
  from one_queued_queue have idle: "worker_transfer one_queued = None"
    and q: "slots (upload_queue one_queued) = 4" "items (upload_queue one_queued) = 1"
    by simp_all
  from queue_balance [OF reachable_one_queued] idle q reachable_one_queued
  show ?thesis by simp
qed

section \<open>First in, first out\<close>


lemma find_client_active:
  "find_client_by_username t s = Some r \<Longrightarrow>
     r < MAX_CLIENTS \<and> Client.active (clients s ! r) \<and> username (clients s ! r) = t"
  by (auto simp: find_client_by_username_def find_Some_iff)

lemma target_online:
  "(case find_client_by_username t s of None \<Rightarrow> True
    | Some r \<Rightarrow> \<not> Client.active (clients s ! r)) = (find_client_by_username t s = None)"
  by (cases "find_client_by_username t s") (auto dest: find_client_active)























section \<open>Sending a file\<close>

lemma send_accepted:
  assumes "passes_checks s f t rc st" "0 < slots (upload_queue s)"
  shows "handle_file_send i f t rc st now s =
     (enqueue_transfer i f t st now
        (s\<lparr>upload_queue := (upload_queue s)\<lparr>slots := slots (upload_queue s) - 1\<rparr>\<rparr>))
     \<lparr>trace := trace s @
        [Send (socket (clients s ! i)) ''[SUCCESS] File added to upload queue.\<newline>'',
         Log (''[FILE-QUEUE] Upload '' @ quoted f @ '' from '' @ username (clients s ! i)
                @ '' added to queue. Queue size: '' @ show_int (count (upload_queue s) + 1)),
         Stdout (''[COMMAND] '' @ username (clients s ! i) @ '' initiated file transfer to ''
                   @ t @ ''\<newline>'')]\<rparr>"
proof -
  from assms(1) have v: "validate_filename f"
    and o: "\<not> (case find_client_by_username t s of None \<Rightarrow> True
               | Some r \<Rightarrow> \<not> Client.active (clients s ! r))"
    and z: "\<not> (rc = 0 \<and> st_size st > MAX_FILE_SIZE)"
    by (simp_all add: passes_checks_def target_online)
  show ?thesis
    unfolding handle_file_send_def Let_def
    using v o z assms(2)
    by (auto simp: enqueue_transfer_def Let_def send_to_client_def log_message_def printf_def)
qed

lemma send_blocked:
  assumes "passes_checks s f t rc st" "slots (upload_queue s) = 0"
  shows "handle_file_send i f t rc st now s =
     s\<lparr>trace := trace s @
          [Send (socket (clients s ! i)) ''[INFO] Upload queue full. Waiting...\<newline>''],
       blocked := blocked s @ [(i, f, t, st)]\<rparr>"
proof -
  from assms(1) have v: "validate_filename f"
    and o: "\<not> (case find_client_by_username t s of None \<Rightarrow> True
               | Some r \<Rightarrow> \<not> Client.active (clients s ! r))"
    and z: "\<not> (rc = 0 \<and> st_size st > MAX_FILE_SIZE)"
    by (simp_all add: passes_checks_def target_online)
  show ?thesis
    unfolding handle_file_send_def Let_def
    using v o z assms(2)
    by (auto simp: send_to_client_def)
qed



lemma pending_blocked_upd [simp]:
  "pending_transfers (s\<lparr>blocked := b\<rparr>) = pending_transfers s"
  "pending_transfers (s\<lparr>trace := tr\<rparr>) = pending_transfers s"
  by (simp_all add: pending_transfers_def)


lemma enqueue_fields [simp]:
  "clients (enqueue_transfer i f t st now s) = clients s"
  "rooms (enqueue_transfer i f t st now s) = rooms s"
  "server_running (enqueue_transfer i f t st now s) = server_running s"
  "worker_transfer (enqueue_transfer i f t st now s) = worker_transfer s"
  "blocked (enqueue_transfer i f t st now s) = blocked s"
  "trace (enqueue_transfer i f t st now s) = trace s"
  "count (upload_queue (enqueue_transfer i f t st now s)) = count (upload_queue s) + 1"
  "slots (upload_queue (enqueue_transfer i f t st now s)) = slots (upload_queue s)"
  "items (upload_queue (enqueue_transfer i f t st now s)) = items (upload_queue s) + 1"
  by (simp_all add: enqueue_transfer_def Let_def)













section \<open>The size check\<close>

lemma send_oversize:
  assumes "validate_filename f" "find_client_by_username t s \<noteq> None"
    "rc = 0" "MAX_FILE_SIZE < st_size st"
  shows "handle_file_send i f t rc st now s =
     s\<lparr>trace := trace s @
          [Send (socket (clients s ! i)) ''[ERROR] File exceeds size limit (3MB).\<newline>'',
           Log (''[ERROR] File '' @ quoted f @ '' from user '' @ quoted (username (clients s ! i))
                  @ '' exceeds size limit'')]\<rparr>"
proof -
  from assms(2) have "\<not> (case find_client_by_username t s of None \<Rightarrow> True
               | Some r \<Rightarrow> \<not> Client.active (clients s ! r))"
    by (simp add: target_online)
  with assms(1,3,4) show ?thesis
    unfolding handle_file_send_def Let_def
    by (simp add: send_to_client_def log_message_def)
qed

text \<open>
  Claim C4, as the code has it. For a \<^verbatim>\<open>/sendfile\<close> with an allowed extension and a target
  that is online: when \<^verbatim>\<open>stat\<close> succeeds and the size is above 3 MiB, the sender is sent
  \<open>[ERROR] File exceeds size limit (3MB).\<close>, the rejection is logged and nothing else
  changes, so nothing is entered into the queue. When \<^verbatim>\<open>stat\<close> fails there is no size
  check and the request is not rejected: it goes on to the queue, where it is entered if
  a slot is free and waits otherwise.
\<close>

theorem sendfile_size_check:
  assumes "validate_filename f" "find_client_by_username t s \<noteq> None"
  shows
    "(rc = 0 \<and> MAX_FILE_SIZE < st_size st \<longrightarrow>
        handle_file_send i f t rc st now s =
          s\<lparr>trace := trace s @
             [Send (socket (clients s ! i)) ''[ERROR] File exceeds size limit (3MB).\<newline>'',
              Log (''[ERROR] File '' @ quoted f @ '' from user ''
                     @ quoted (username (clients s ! i)) @ '' exceeds size limit'')]\<rparr>) \<and>
     (rc \<noteq> 0 \<longrightarrow>
        passes_checks s f t rc st \<and>
        (0 < slots (upload_queue s) \<longrightarrow>
           items (upload_queue (handle_file_send i f t rc st now s)) = items (upload_queue s) + 1 \<and>
           count (upload_queue (handle_file_send i f t rc st now s)) = count (upload_queue s) + 1 \<and>
           sent_to (socket (clients s ! i)) (trace (handle_file_send i f t rc st now s)) =
             sent_to (socket (clients s ! i)) (trace s)
               @ [''[SUCCESS] File added to upload queue.\<newline>'']) \<and>
        (slots (upload_queue s) = 0 \<longrightarrow>
           blocked (handle_file_send i f t rc st now s) = blocked s @ [(i, f, t, st)]))"
proof (intro conjI impI)
  assume "rc = 0 \<and> MAX_FILE_SIZE < st_size st"
  with assms show "handle_file_send i f t rc st now s =
          s\<lparr>trace := trace s @
             [Send (socket (clients s ! i)) ''[ERROR] File exceeds size limit (3MB).\<newline>'',
              Log (''[ERROR] File '' @ quoted f @ '' from user ''
                     @ quoted (username (clients s ! i)) @ '' exceeds size limit'')]\<rparr>"
    by (simp add: send_oversize)
next
  assume rc: "rc \<noteq> 0"
  with assms show p: "passes_checks s f t rc st"
    by (simp add: passes_checks_def)
  {
    assume pos: "0 < slots (upload_queue s)"
    note eq = send_accepted [OF p pos, of i now]
    show "items (upload_queue (handle_file_send i f t rc st now s)) = items (upload_queue s) + 1"
      by (simp add: eq)
    show "count (upload_queue (handle_file_send i f t rc st now s)) = count (upload_queue s) + 1"
      by (simp add: eq)
    show "sent_to (socket (clients s ! i)) (trace (handle_file_send i f t rc st now s)) =
             sent_to (socket (clients s ! i)) (trace s)
               @ [''[SUCCESS] File added to upload queue.\<newline>'']"
      by (simp add: eq sent_to_def)
  }
  {
    assume zero: "slots (upload_queue s) = 0"
    show "blocked (handle_file_send i f t rc st now s) = blocked s @ [(i, f, t, st)]"
      by (simp add: send_blocked [OF p zero])
  }
qed

theorem sendfile_size_check_witness:
  "validate_filename ''notes.txt'' \<and> find_client_by_username ''bob'' two_users \<noteq> None \<and>
   handle_file_send 0 ''notes.txt'' ''bob'' 0 \<lparr>st_mode = 0x81A4, st_size = 4194304\<rparr> 1700000000
       two_users =
     two_users\<lparr>trace := trace two_users @
       [Send 4 ''[ERROR] File exceeds size limit (3MB).\<newline>'',
        Log (''[ERROR] File '' @ quoted ''notes.txt'' @ '' from user '' @ quoted ''alice''
               @ '' exceeds size limit'')]\<rparr> \<and>
   slots (upload_queue two_users) = 5 \<and>
   items (upload_queue
     (handle_file_send 0 ''notes.txt'' ''bob'' (- 1) \<lparr>st_mode = 0, st_size = 0\<rparr> 1700000000
        two_users)) = 1"
proof -
  have v: "validate_filename ''notes.txt''"
    by (simp add: validate_filename_def)
  have o: "find_client_by_username ''bob'' two_users \<noteq> None"
    by (simp add: find_bob)
  note T = sendfile_size_check [OF v o]
  have big: "(0::int) = 0 \<and> MAX_FILE_SIZE < st_size \<lparr>st_mode = 0x81A4, st_size = 4194304\<rparr>"
    by simp
  have pos: "0 < slots (upload_queue two_users)"
    by (simp add: two_users_queue)
  have fail: "(- 1::int) \<noteq> 0" by simp
  from T [of 0 "\<lparr>st_mode = 0x81A4, st_size = 4194304\<rparr>" 0 1700000000,
      THEN conjunct1, rule_format, OF big]
  have a: "handle_file_send 0 ''notes.txt'' ''bob'' 0 \<lparr>st_mode = 0x81A4, st_size = 4194304\<rparr>
       1700000000 two_users =
     two_users\<lparr>trace := trace two_users @
       [Send 4 ''[ERROR] File exceeds size limit (3MB).\<newline>'',
        Log (''[ERROR] File '' @ quoted ''notes.txt'' @ '' from user '' @ quoted ''alice''
               @ '' exceeds size limit'')]\<rparr>"
    by (simp add: two_users_fields)
  from T [of "- 1" "\<lparr>st_mode = 0, st_size = 0\<rparr>" 0 1700000000,
      THEN conjunct2, rule_format, OF fail, THEN conjunct2, THEN conjunct1, rule_format, OF pos]
  have b: "items (upload_queue
     (handle_file_send 0 ''notes.txt'' ''bob'' (- 1) \<lparr>st_mode = 0, st_size = 0\<rparr> 1700000000
        two_users)) = 1"
    by (simp add: two_users_queue)
  from v o a b show ?thesis
    by (simp add: two_users_queue)
qed

text \<open>
  Against claim C4 as it was stated: alice sends bob \<open>notes.txt\<close> and \<^verbatim>\<open>stat\<close> fails. The
  request is not rejected: a record with the fallback size of 1024 bytes is entered into
  the queue and alice is told so.
\<close>

theorem sendfile_stat_failure_counterexample:
  "pending_transfers two_users = [] \<and>
   pending_transfers
     (handle_file_send 0 ''notes.txt'' ''bob'' (- 1) \<lparr>st_mode = 0, st_size = 0\<rparr> 1700000000
        two_users) =
     [\<lparr>filename = ''notes.txt'', sender = ''alice'', receiver = ''bob'', file_size = 1024,
       file_data = None, timestamp = 1700000000\<rparr>] \<and>
   trace
     (handle_file_send 0 ''notes.txt'' ''bob'' (- 1) \<lparr>st_mode = 0, st_size = 0\<rparr> 1700000000
        two_users) =
     trace two_users @
       [Send 4 ''[SUCCESS] File added to upload queue.\<newline>'',
        Log (''[FILE-QUEUE] Upload '' @ quoted ''notes.txt''
               @ '' from alice added to queue. Queue size: 1''),
        Stdout ''[COMMAND] alice initiated file transfer to bob\<newline>'']"
proof -
  have p: "passes_checks two_users ''notes.txt'' ''bob'' (- 1) \<lparr>st_mode = 0, st_size = 0\<rparr>"
    by (simp add: passes_checks_def find_bob validate_filename_def)
  have pos: "0 < slots (upload_queue two_users)"
    by (simp add: two_users_queue)
  note eq = send_accepted [OF p pos, of 0 1700000000]
  have "pending_transfers two_users = []"
    by (simp add: pending_transfers_def two_users_queue)
  moreover have "pending_transfers
     (handle_file_send 0 ''notes.txt'' ''bob'' (- 1) \<lparr>st_mode = 0, st_size = 0\<rparr> 1700000000
        two_users) =
     [\<lparr>filename = ''notes.txt'', sender = ''alice'', receiver = ''bob'', file_size = 1024,
       file_data = None, timestamp = 1700000000\<rparr>]"
    by (simp add: eq pending_transfers_def enqueue_transfer_def Let_def two_users_queue
          two_users_fields declared_size_def)
  moreover have "trace
     (handle_file_send 0 ''notes.txt'' ''bob'' (- 1) \<lparr>st_mode = 0, st_size = 0\<rparr> 1700000000
        two_users) =
     trace two_users @
       [Send 4 ''[SUCCESS] File added to upload queue.\<newline>'',
        Log (''[FILE-QUEUE] Upload '' @ quoted ''notes.txt''
               @ '' from alice added to queue. Queue size: 1''),
        Stdout ''[COMMAND] alice initiated file transfer to bob\<newline>'']"
    by (simp add: eq two_users_fields two_users_queue show_int_def dec.simps)
  ultimately show ?thesis by simp
qed

section \<open>Shutdown\<close>

lemma notify_clients_eq:
  "notify_clients js n s =
     (n + int (length (filter (\<lambda>j. Client.active (clients s ! j)) js)),
      s\<lparr>trace := trace s @
           map (\<lambda>j. Send (socket (clients s ! j)) ''[SERVER] Server shutting down. Goodbye!\<newline>'')
             (filter (\<lambda>j. Client.active (clients s ! j)) js)\<rparr>)"
proof (induction js arbitrary: n s)
  case Nil
  show ?case by simp
next
  case (Cons j js)
  show ?case
    by (simp add: Cons.IH send_to_client_def)
qed

lemma server_socket_leave [simp]: "server_socket (handle_leave_room i s) = server_socket s"
  by (simp add: handle_leave_room_def Let_def split: option.split)

lemma server_socket_cleanup [simp]: "server_socket (cleanup_client i s) = server_socket s"
  by (simp add: cleanup_client_def clear_current_room_def clear_username_def clear_active_def
        cleanup_close_def cleanup_log_def cleanup_leave_def Let_def)

lemma server_socket_register [simp]:
  "server_socket (client_handler_register i rcv s) = server_socket s"
  by (simp add: client_handler_register_def Let_def split: option.split)

lemma server_socket_accept [simp]: "server_socket (main_accept fd a s) = server_socket s"
  by (simp add: main_accept_def Let_def split: option.split)

text \<open>
  Claim C7, as the code has it. The handler of \<^verbatim>\<open>SIGINT\<close> clears the running flag, sends
  the goodbye line to every active session in the order of the slots, logs \<open>SHUTDOWN\<close>
  with their number, closes the listening socket and the log file and exits. These are
  all of its effects: the upload queue and its semaphores stay as they were, so nothing
  is posted on \<open>items\<close>. The log line is written and flushed (an event \<open>Log\<close>) before the
  event \<open>Exit\<close>.
\<close>

theorem shutdown_effects:
  "signal_handler SIGINT s =
     s\<lparr>server_running := False,
       trace := trace s
         @ [Stdout ''\<newline>[SHUTDOWN] SIGINT received. Shutting down server...\<newline>'']
         @ map (\<lambda>j. Send (socket (clients s ! j)) ''[SERVER] Server shutting down. Goodbye!\<newline>'')
             (filter (\<lambda>j. Client.active (clients s ! j)) [0..<MAX_CLIENTS])
         @ [Log (''[SHUTDOWN] SIGINT received. Disconnecting ''
                  @ show_int (int (length (filter (\<lambda>j. Client.active (clients s ! j))
                                            [0..<MAX_CLIENTS])))
                  @ '' clients, saving logs.''),
            Close (server_socket s), Fclose, Exit 0]\<rparr> \<and>
   upload_queue (signal_handler SIGINT s) = upload_queue s \<and>
   items (upload_queue (signal_handler SIGINT s)) = items (upload_queue s)"
proof -
  have "signal_handler SIGINT s =
     s\<lparr>server_running := False,
       trace := trace s
         @ [Stdout ''\<newline>[SHUTDOWN] SIGINT received. Shutting down server...\<newline>'']
         @ map (\<lambda>j. Send (socket (clients s ! j)) ''[SERVER] Server shutting down. Goodbye!\<newline>'')
             (filter (\<lambda>j. Client.active (clients s ! j)) [0..<MAX_CLIENTS])
         @ [Log (''[SHUTDOWN] SIGINT received. Disconnecting ''
                  @ show_int (int (length (filter (\<lambda>j. Client.active (clients s ! j))
                                            [0..<MAX_CLIENTS])))
                  @ '' clients, saving logs.''),
            Close (server_socket s), Fclose, Exit 0]\<rparr>"
    by (simp add: signal_handler_def notify_clients_eq Let_def printf_def log_message_def)
  then show ?thesis by simp
qed

theorem shutdown_effects_witness:
  "trace (signal_handler SIGINT two_users) = trace two_users @
     [Stdout ''\<newline>[SHUTDOWN] SIGINT received. Shutting down server...\<newline>'',
      Send 4 ''[SERVER] Server shutting down. Goodbye!\<newline>'',
      Send 5 ''[SERVER] Server shutting down. Goodbye!\<newline>'',
      Log ''[SHUTDOWN] SIGINT received. Disconnecting 2 clients, saving logs.'',
      Close 3, Fclose, Exit 0] \<and>
   server_running (signal_handler SIGINT two_users) = False"
proof -
  have "server_socket two_users = 3"
    by (simp add: two_users_def one_user_def main_init_def)
  then show ?thesis
    by (simp add: shutdown_effects [of two_users, THEN conjunct1] two_users_fields client_slots
          show_int_def dec.simps)
qed

text \<open>
  Against claim C7 as it was stated: with alice and bob connected and the queue empty,
  the worker waits on \<open>items\<close>. After the handler of \<^verbatim>\<open>SIGINT\<close> has run, the counter of
  \<open>items\<close> is still zero and the worker still cannot go on: no sentinel was posted.
\<close>

theorem shutdown_sentinel_counterexample:
  "file_transfer_handler_take two_users = None \<and>
   items (upload_queue (signal_handler SIGINT two_users)) = 0 \<and>
   file_transfer_handler_take (signal_handler SIGINT two_users) = None"
  by (simp add: file_transfer_handler_take_def shutdown_effects [of two_users, THEN conjunct1]
        two_users_queue)

section \<open>Names and sockets of the sessions\<close>

lemma clients_leave:
  "clients (handle_leave_room i s) =
     (if current_room (clients s ! i) = [] then clients s
      else (clients s)[i := (clients s ! i)\<lparr>current_room := []\<rparr>])"
  by (simp add: handle_leave_room_def Let_def split: option.split)

lemma blocked_leave [simp]: "blocked (handle_leave_room i s) = blocked s"
  by (simp add: handle_leave_room_def Let_def split: option.split)

lemma running_leave [simp]: "server_running (handle_leave_room i s) = server_running s"
  by (simp add: handle_leave_room_def Let_def split: option.split)

lemma find_or_create_frame:
  assumes "find_or_create_room r s = (ro, s')"
  shows "clients s' = clients s" "blocked s' = blocked s" "server_running s' = server_running s"
    "trace s' = trace s" "server_socket s' = server_socket s"
  using assms by (auto simp: find_or_create_room_def split: option.splits)

lemma clients_join:
  "\<exists>x. clients (handle_join_room i r s) = (clients s)[i := (clients s ! i)\<lparr>current_room := x\<rparr>]"
proof -
  have same: "\<exists>x. cs = cs[i := (cs ! i)\<lparr>current_room := x\<rparr>]" for cs :: "Client list"
    by (rule exI [of _ "current_room (cs ! i)"]) (simp add: list_update_same_conv)
  have upd: "\<exists>x. cs[i := (cs ! i)\<lparr>current_room := y\<rparr>] = cs[i := (cs ! i)\<lparr>current_room := x\<rparr>]"
    for cs :: "Client list" and y
    by blast
  have upd2: "\<exists>x. cs[i := (cs ! i)\<lparr>current_room := []\<rparr>,
                     i := (cs[i := (cs ! i)\<lparr>current_room := []\<rparr>] ! i)\<lparr>current_room := y\<rparr>]
                = cs[i := (cs ! i)\<lparr>current_room := x\<rparr>]"
    for cs :: "Client list" and y
    by (cases "i < length cs") (auto intro: exI [of _ y] simp: list_update_beyond not_less)
  show ?thesis
    using same [of "clients s"] upd [of "clients s"] upd2 [of "clients s"]
    by (auto simp: handle_join_room_def Let_def clients_leave
             dest!: find_or_create_frame(1) split: prod.split option.split)
qed

lemma blocked_join [simp]: "blocked (handle_join_room i r s) = blocked s"
  by (auto simp: handle_join_room_def Let_def dest!: find_or_create_frame(2)
           split: prod.split option.split)

lemma clients_cleanup:
  "clients (cleanup_client i s) =
     (if Client.active (clients s ! i)
      then (clients s)[i :=
             \<lparr>socket = - 1, username = [], current_room = [], addr = addr (clients s ! i),
              active = False\<rparr>]
      else clients s)"
proof (cases "i < length (clients s)")
  case True
  have h1: "c\<lparr>socket := - 1, Client.active := False, username := [], current_room := []\<rparr> =
          \<lparr>socket = - 1, username = [], current_room = [], addr = addr c, active = False\<rparr>"
    for c :: Client
    by (rule Client.equality) simp_all
  have h2: "socket c = - 1 \<Longrightarrow>
        c\<lparr>Client.active := False, username := [], current_room := []\<rparr> =
          \<lparr>socket = - 1, username = [], current_room = [], addr = addr c, active = False\<rparr>"
    for c :: Client
    by (rule Client.equality) simp_all
  show ?thesis
    using True
    by (simp add: cleanup_client_def clear_current_room_def clear_username_def clear_active_def
        cleanup_close_def cleanup_log_def cleanup_leave_def Let_def clients_leave h1 h2)
next
  case False
  then show ?thesis
    by (simp add: cleanup_client_def clear_current_room_def clear_username_def clear_active_def
        cleanup_close_def cleanup_log_def cleanup_leave_def Let_def clients_leave
        list_update_beyond not_less)
qed

lemma blocked_cleanup [simp]: "blocked (cleanup_client i s) = blocked s"
  by (simp add: cleanup_client_def clear_current_room_def clear_username_def clear_active_def
        cleanup_close_def cleanup_log_def cleanup_leave_def Let_def)


lemma clients_inv_same:
  assumes "clients_inv s" "clients s' = clients s" "blocked s' = blocked s"
  shows "clients_inv s'"
  using assms by (simp add: clients_inv_def names_unique_def)

lemma nth_slot: "j < length xs \<Longrightarrow> xs[i := y] ! j = (if i = j then y else xs ! j)"
  by (simp add: nth_list_update)

lemma clients_inv_slot:
  assumes inv: "clients_inv s" and i: "i < MAX_CLIENTS"
    and c: "clients s' = (clients s)[i := c']" and b: "blocked s' = blocked s"
    and act: "Client.active c' \<Longrightarrow> 0 \<le> socket c' \<and>
        (\<forall>j<MAX_CLIENTS. j \<noteq> i \<and> Client.active (clients s ! j) \<longrightarrow>
           socket c' \<noteq> socket (clients s ! j) \<and>
           (username c' \<noteq> username (clients s ! j) \<or> username c' = []
            \<or> username (clients s ! j) = []))"
    and inact: "\<not> Client.active c' \<Longrightarrow> username c' = [] \<and> current_room c' = []"
    and blk: "i \<in> set (map fst (blocked s)) \<Longrightarrow> Client.active c' \<and> username c' \<noteq> []"
  shows "clients_inv s'"
proof -
  from inv have l: "length (clients s) = MAX_CLIENTS"
    and u: "\<And>j k. j < MAX_CLIENTS \<Longrightarrow> k < MAX_CLIENTS \<Longrightarrow> j \<noteq> k \<Longrightarrow>
        Client.active (clients s ! j) \<Longrightarrow> Client.active (clients s ! k) \<Longrightarrow>
        username (clients s ! j) \<noteq> username (clients s ! k)
        \<or> username (clients s ! j) = [] \<or> username (clients s ! k) = []"
    and d: "\<And>j k. j < MAX_CLIENTS \<Longrightarrow> k < MAX_CLIENTS \<Longrightarrow> j \<noteq> k \<Longrightarrow>
        Client.active (clients s ! j) \<Longrightarrow> Client.active (clients s ! k) \<Longrightarrow>
        socket (clients s ! j) \<noteq> socket (clients s ! k)"
    and p: "\<And>j. j < MAX_CLIENTS \<Longrightarrow> Client.active (clients s ! j) \<Longrightarrow>
        0 \<le> socket (clients s ! j)"
    and e: "\<And>j. j < MAX_CLIENTS \<Longrightarrow> \<not> Client.active (clients s ! j) \<Longrightarrow>
        username (clients s ! j) = [] \<and> current_room (clients s ! j) = []"
    and k: "\<And>j. j \<in> set (map fst (blocked s)) \<Longrightarrow>
        j < MAX_CLIENTS \<and> Client.active (clients s ! j) \<and> username (clients s ! j) \<noteq> []"
    and q: "distinct (map fst (blocked s))"
    unfolding clients_inv_def names_unique_def by blast+
  have n: "clients s' ! j = (if i = j then c' else clients s ! j)" if "j < MAX_CLIENTS" for j
    using that l by (simp add: c nth_slot)
  have 1: "length (clients s') = MAX_CLIENTS"
    by (simp add: c l)
  have 2: "names_unique s'"
    unfolding names_unique_def
  proof (intro allI impI)
    fix j k
    assume "j < MAX_CLIENTS" "k < MAX_CLIENTS"
      "j \<noteq> k \<and> Client.active (clients s' ! j) \<and> Client.active (clients s' ! k)"
    then show "username (clients s' ! j) \<noteq> username (clients s' ! k)
        \<or> username (clients s' ! j) = [] \<or> username (clients s' ! k) = []"
      using u [of j k] act by (auto simp: n split: if_splits)
  qed
  have 3: "\<forall>j<MAX_CLIENTS. \<forall>k<MAX_CLIENTS.
         j \<noteq> k \<and> Client.active (clients s' ! j) \<and> Client.active (clients s' ! k) \<longrightarrow>
         socket (clients s' ! j) \<noteq> socket (clients s' ! k)"
  proof (intro allI impI)
    fix j k
    assume "j < MAX_CLIENTS" "k < MAX_CLIENTS"
      "j \<noteq> k \<and> Client.active (clients s' ! j) \<and> Client.active (clients s' ! k)"
    then show "socket (clients s' ! j) \<noteq> socket (clients s' ! k)"
      using d [of j k] act by (auto simp: n split: if_splits)
  qed
  have 4: "\<forall>j<MAX_CLIENTS. Client.active (clients s' ! j) \<longrightarrow> 0 \<le> socket (clients s' ! j)"
    using p act by (auto simp: n)
  have 5: "\<forall>j<MAX_CLIENTS. \<not> Client.active (clients s' ! j) \<longrightarrow>
         username (clients s' ! j) = [] \<and> current_room (clients s' ! j) = []"
    using e inact by (auto simp: n)
  have 6: "\<forall>j \<in> set (map fst (blocked s')).
         j < MAX_CLIENTS \<and> Client.active (clients s' ! j) \<and> username (clients s' ! j) \<noteq> []"
  proof
    fix j assume "j \<in> set (map fst (blocked s'))"
    then have j: "j \<in> set (map fst (blocked s))" by (simp add: b)
    with k [OF j] blk show
      "j < MAX_CLIENTS \<and> Client.active (clients s' ! j) \<and> username (clients s' ! j) \<noteq> []"
      by (auto simp: n)
  qed
  from 1 2 3 4 5 6 q show ?thesis
    unfolding clients_inv_def b by blast
qed

lemma slot_same: "i < length xs \<Longrightarrow> xs = xs[i := xs ! i]"
  by (simp add: list_update_same_conv)

lemma clients_inv_room_change:
  assumes "clients_inv s" "i < MAX_CLIENTS"
    "clients s' = (clients s)[i := (clients s ! i)\<lparr>current_room := x\<rparr>]"
    "blocked s' = blocked s" "Client.active (clients s ! i) \<or> x = []"
  shows "clients_inv s'"
proof (rule clients_inv_slot [OF assms(1,2,3,4)])
  from assms(1) have l: "length (clients s) = MAX_CLIENTS"
    and u: "\<And>j k. j < MAX_CLIENTS \<Longrightarrow> k < MAX_CLIENTS \<Longrightarrow> j \<noteq> k \<Longrightarrow>
        Client.active (clients s ! j) \<Longrightarrow> Client.active (clients s ! k) \<Longrightarrow>
        username (clients s ! j) \<noteq> username (clients s ! k)
        \<or> username (clients s ! j) = [] \<or> username (clients s ! k) = []"
    and d: "\<And>j k. j < MAX_CLIENTS \<Longrightarrow> k < MAX_CLIENTS \<Longrightarrow> j \<noteq> k \<Longrightarrow>
        Client.active (clients s ! j) \<Longrightarrow> Client.active (clients s ! k) \<Longrightarrow>
        socket (clients s ! j) \<noteq> socket (clients s ! k)"
    and p: "\<And>j. j < MAX_CLIENTS \<Longrightarrow> Client.active (clients s ! j) \<Longrightarrow>
        0 \<le> socket (clients s ! j)"
    and e: "\<And>j. j < MAX_CLIENTS \<Longrightarrow> \<not> Client.active (clients s ! j) \<Longrightarrow>
        username (clients s ! j) = [] \<and> current_room (clients s ! j) = []"
    and k: "\<And>j. j \<in> set (map fst (blocked s)) \<Longrightarrow>
        j < MAX_CLIENTS \<and> Client.active (clients s ! j) \<and> username (clients s ! j) \<noteq> []"
    unfolding clients_inv_def names_unique_def by blast+
  let ?c = "(clients s ! i)\<lparr>current_room := x\<rparr>"
  show "0 \<le> socket ?c \<and>
        (\<forall>j<MAX_CLIENTS. j \<noteq> i \<and> Client.active (clients s ! j) \<longrightarrow>
           socket ?c \<noteq> socket (clients s ! j) \<and>
           (username ?c \<noteq> username (clients s ! j) \<or> username ?c = []
            \<or> username (clients s ! j) = []))" if "Client.active ?c"
    using that p [OF assms(2)] d [OF assms(2)] u [OF assms(2)] by auto
  show "username ?c = [] \<and> current_room ?c = []" if "\<not> Client.active ?c"
    using that e [OF assms(2)] assms(5) by auto
  show "Client.active ?c \<and> username ?c \<noteq> []" if "i \<in> set (map fst (blocked s))"
    using k [OF that] by simp
qed

lemma clients_inv_leave:
  assumes "clients_inv s" "i < MAX_CLIENTS"
  shows "clients_inv (handle_leave_room i s)"
proof (cases "current_room (clients s ! i) = []")
  case True
  with assms show ?thesis
    by (intro clients_inv_same [OF assms(1)]) (simp_all add: clients_leave)
next
  case False
  show ?thesis
    by (rule clients_inv_room_change [OF assms, of _ "[]"]) (simp_all add: clients_leave False)
qed

lemma clients_inv_join:
  assumes "clients_inv s" "i < MAX_CLIENTS" "Client.active (clients s ! i)"
  shows "clients_inv (handle_join_room i r s)"
proof -
  from clients_join [of i r s] obtain x where
    "clients (handle_join_room i r s) = (clients s)[i := (clients s ! i)\<lparr>current_room := x\<rparr>]"
    by blast
  from clients_inv_room_change [OF assms(1,2) this] assms(3) show ?thesis by simp
qed

lemma clients_inv_cleanup:
  assumes "clients_inv s" "i < MAX_CLIENTS" "i \<notin> set (map fst (blocked s))"
  shows "clients_inv (cleanup_client i s)"
proof (cases "Client.active (clients s ! i)")
  case False
  then show ?thesis
    by (intro clients_inv_same [OF assms(1)]) (simp_all add: clients_cleanup)
next
  case True
  then have c: "clients (cleanup_client i s) = (clients s)[i :=
      \<lparr>socket = - 1, username = [], current_room = [], addr = addr (clients s ! i),
       active = False\<rparr>]"
    by (simp add: clients_cleanup)
  show ?thesis
    by (rule clients_inv_slot [OF assms(1,2) c]) (use assms(3) in simp_all)
qed


lemma clients_broadcast_members [simp]:
  "clients (broadcast_members ms r m u s) = clients s"
  "blocked (broadcast_members ms r m u s) = blocked s"
  by (induction ms r m u s rule: broadcast_members.induct) simp_all

lemma clients_broadcast [simp]:
  "clients (handle_broadcast i m s) = clients s"
  "blocked (handle_broadcast i m s) = blocked s"
  by (simp_all add: handle_broadcast_def broadcast_to_room_def Let_def split: option.split)

lemma clients_whisper [simp]:
  "clients (handle_whisper i t m s) = clients s"
  "blocked (handle_whisper i t m s) = blocked s"
  by (simp_all add: handle_whisper_def Let_def split: option.split)

lemma clients_send [simp]: "clients (handle_file_send i f t rc st now s) = clients s"
  by (simp add: handle_file_send_def Let_def enqueue_transfer_def)

lemma blocked_send:
  "blocked (handle_file_send i f t rc st now s) = blocked s
   \<or> blocked (handle_file_send i f t rc st now s) = blocked s @ [(i, f, t, st)]"
  by (simp add: handle_file_send_def Let_def enqueue_transfer_def)

lemma clients_resume:
  assumes "handle_file_send_resume i now s = Some s'"
  shows "clients s' = clients s" "blocked s' = filter (\<lambda>p. fst p \<noteq> i) (blocked s)"
  using assms
  by (auto simp: handle_file_send_resume_def Let_def enqueue_transfer_def
           split: option.splits if_splits)

lemma clients_take:
  assumes "file_transfer_handler_take s = Some s'"
  shows "clients s' = clients s" "blocked s' = blocked s"
  using assms
  by (auto simp: file_transfer_handler_take_def Let_def split: if_splits)

lemma clients_deliver:
  assumes "file_transfer_handler_deliver s = Some s'"
  shows "clients s' = clients s" "blocked s' = blocked s"
  using assms
  by (auto simp: file_transfer_handler_deliver_def Let_def split: option.splits)

lemma clients_signal [simp]:
  "clients (signal_handler SIGINT s) = clients s"
  "blocked (signal_handler SIGINT s) = blocked s"
  by (simp_all add: shutdown_effects [THEN conjunct1])

lemma accept_effect:
  "(clients (main_accept fd a s) = clients s
    \<or> fd \<noteq> - 1 \<and> (\<exists>slot<MAX_CLIENTS. \<not> Client.active (clients s ! slot) \<and>
         clients (main_accept fd a s) = (clients s)[slot :=
           \<lparr>socket = fd, username = [], current_room = [], addr = a, active = True\<rparr>]))
   \<and> blocked (main_accept fd a s) = blocked s"
  by (auto simp: main_accept_def Let_def find_Some_iff split: option.splits)

lemma clients_inv_accept:
  assumes "clients_inv s" "- 1 \<le> fd"
    "\<forall>j<MAX_CLIENTS. Client.active (clients s ! j) \<longrightarrow> socket (clients s ! j) \<noteq> fd"
  shows "clients_inv (main_accept fd a s)"
proof -
  from accept_effect [of fd a s] have b: "blocked (main_accept fd a s) = blocked s" by simp
  from accept_effect [of fd a s] consider
    "clients (main_accept fd a s) = clients s"
    | slot where "fd \<noteq> - 1" "slot < MAX_CLIENTS" "\<not> Client.active (clients s ! slot)"
        "clients (main_accept fd a s) = (clients s)[slot :=
           \<lparr>socket = fd, username = [], current_room = [], addr = a, active = True\<rparr>]"
    by blast
  then show ?thesis
  proof cases
    case 1
    with assms(1) b show ?thesis by (intro clients_inv_same [OF assms(1)])
  next
    case 2
    from assms(1) have k: "\<And>j. j \<in> set (map fst (blocked s)) \<Longrightarrow>
        Client.active (clients s ! j)"
      unfolding clients_inv_def by blast
    show ?thesis
    proof (rule clients_inv_slot [OF assms(1) 2(2,4) b])
      show "0 \<le> socket \<lparr>socket = fd, username = [], current_room = [], addr = a, active = True\<rparr>
         \<and> (\<forall>j<MAX_CLIENTS. j \<noteq> slot \<and> Client.active (clients s ! j) \<longrightarrow>
           socket \<lparr>socket = fd, username = [], current_room = [], addr = a, active = True\<rparr>
             \<noteq> socket (clients s ! j) \<and>
           (username \<lparr>socket = fd, username = [], current_room = [], addr = a, active = True\<rparr>
              \<noteq> username (clients s ! j)
            \<or> username \<lparr>socket = fd, username = [], current_room = [], addr = a, active = True\<rparr>
                = []
            \<or> username (clients s ! j) = []))"
        using assms(2,3) 2(1) by auto
      show "username \<lparr>socket = fd, username = [], current_room = [], addr = a, active = True\<rparr> = []
          \<and> current_room \<lparr>socket = fd, username = [], current_room = [], addr = a, active = True\<rparr>
              = []"
        by simp
      show "Client.active \<lparr>socket = fd, username = [], current_room = [], addr = a, active = True\<rparr>
          \<and> username \<lparr>socket = fd, username = [], current_room = [], addr = a, active = True\<rparr>
              \<noteq> []"
        if "slot \<in> set (map fst (blocked s))"
        using k [OF that] 2(3) by simp
    qed
  qed
qed

lemma register_effect:
  "client_handler_register i rcv s = cleanup_client i s
   \<or> client_handler_register i rcv s =
        cleanup_client i
          (send_to_client (socket (clients s ! i))
             ''Enter username (max 16 chars, alphanumeric): '' s)
   \<or> (clients (client_handler_register i rcv s) = clients s
        \<and> blocked (client_handler_register i rcv s) = blocked s)
   \<or> (\<exists>bytes. rcv = Some bytes \<and> validate_username (received_name bytes)
         \<and> find_client_by_username (received_name bytes) s = None
         \<and> clients (client_handler_register i rcv s) =
             (clients s)[i := (clients s ! i)\<lparr>username := received_name bytes\<rparr>]
         \<and> blocked (client_handler_register i rcv s) = blocked s)"
proof -
  have f: "find_client_by_username u (send_to_client fd m s) = find_client_by_username u s"
    for u fd m
    by (simp add: find_client_by_username_def)
  show ?thesis
    by (cases rcv) (auto simp: client_handler_register_def Let_def f)
qed



lemma find_client_None:
  "find_client_by_username u s = None \<longleftrightarrow>
     (\<forall>j<MAX_CLIENTS. Client.active (clients s ! j) \<longrightarrow> username (clients s ! j) \<noteq> u)"
  by (auto simp: find_client_by_username_def find_None_iff)

lemma clients_inv_register:
  assumes "clients_inv s" "registering s i"
  shows "clients_inv (client_handler_register i rcv s)"
proof -
  from assms(2) have i: "i < MAX_CLIENTS" and a: "Client.active (clients s ! i)"
    and n: "username (clients s ! i) = []"
    by (simp_all add: registering_def)
  from assms(1) have "\<And>j. j \<in> set (map fst (blocked s)) \<Longrightarrow> username (clients s ! j) \<noteq> []"
    and d: "\<And>j. j < MAX_CLIENTS \<Longrightarrow> j \<noteq> i \<Longrightarrow> Client.active (clients s ! j) \<Longrightarrow>
        socket (clients s ! i) \<noteq> socket (clients s ! j)"
    and p: "0 \<le> socket (clients s ! i)"
    unfolding clients_inv_def using i a by blast+
  with n have nb: "i \<notin> set (map fst (blocked s))" by blast
  let ?s1 = "send_to_client (socket (clients s ! i))
             ''Enter username (max 16 chars, alphanumeric): '' s"
  have inv1: "clients_inv ?s1"
    by (rule clients_inv_same [OF assms(1)]) simp_all
  from register_effect [of i rcv s] consider
    "client_handler_register i rcv s = cleanup_client i s"
    | "client_handler_register i rcv s = cleanup_client i ?s1"
    | "clients (client_handler_register i rcv s) = clients s"
      "blocked (client_handler_register i rcv s) = blocked s"
    | bytes where "validate_username (received_name bytes)"
        "find_client_by_username (received_name bytes) s = None"
        "clients (client_handler_register i rcv s) =
             (clients s)[i := (clients s ! i)\<lparr>username := received_name bytes\<rparr>]"
        "blocked (client_handler_register i rcv s) = blocked s"
    by blast
  then show ?thesis
  proof cases
    case 1
    with clients_inv_cleanup [OF assms(1) i nb] show ?thesis by simp
  next
    case 2
    from clients_inv_cleanup [OF inv1 i] nb 2 show ?thesis by simp
  next
    case 3
    with assms(1) show ?thesis by (intro clients_inv_same [OF assms(1)])
  next
    case 4
    let ?c = "(clients s ! i)\<lparr>username := received_name bytes\<rparr>"
    show ?thesis
    proof (rule clients_inv_slot [OF assms(1) i 4(3,4)])
      show "0 \<le> socket ?c \<and>
        (\<forall>j<MAX_CLIENTS. j \<noteq> i \<and> Client.active (clients s ! j) \<longrightarrow>
           socket ?c \<noteq> socket (clients s ! j) \<and>
           (username ?c \<noteq> username (clients s ! j) \<or> username ?c = []
            \<or> username (clients s ! j) = []))"
        using p d 4(2) by (auto simp: find_client_None)
      show "username ?c = [] \<and> current_room ?c = []" if "\<not> Client.active ?c"
        using that a by simp
      show "Client.active ?c \<and> username ?c \<noteq> []" if "i \<in> set (map fst (blocked s))"
        using that nb by simp
    qed
  qed
qed

lemma clients_inv_send:
  assumes "clients_inv s" "commanding s i"
  shows "clients_inv (handle_file_send i f t rc st now s)"
proof -
  from blocked_send [of i f t rc st now s] show ?thesis
  proof
    assume "blocked (handle_file_send i f t rc st now s) = blocked s"
    then show ?thesis by (intro clients_inv_same [OF assms(1)]) simp_all
  next
    assume b: "blocked (handle_file_send i f t rc st now s) = blocked s @ [(i, f, t, st)]"
    from assms show ?thesis
      unfolding clients_inv_def names_unique_def b commanding_def
      by auto
  qed
qed

lemma clients_inv_resume:
  assumes "clients_inv s" "handle_file_send_resume i now s = Some s'"
  shows "clients_inv s'"
  using assms(1) unfolding clients_inv_def names_unique_def clients_resume [OF assms(2)]
  by (auto simp: distinct_map_filter)

lemma step_clients_inv:
  assumes "step s s'" "clients_inv s"
  shows "clients_inv s'"
  using assms
proof (induction rule: step.induct)
  case (accept s fd a)
  then show ?case by (simp add: clients_inv_accept)
next
  case (register s i rcv)
  then show ?case by (simp add: clients_inv_register)
next
  case (join s i room_name)
  then show ?case by (simp add: clients_inv_join commanding_def)
next
  case (leave s i)
  then show ?case by (simp add: clients_inv_leave commanding_def)
next
  case (broadcast s i msg)
  show ?case by (rule clients_inv_same [OF broadcast(3)]) simp_all
next
  case (whisper s i target msg)
  show ?case by (rule clients_inv_same [OF whisper(3)]) simp_all
next
  case (sendfile s i fname target rc st now)
  then show ?case by (simp add: clients_inv_send)
next
  case (answer s i msg)
  show ?case by (rule clients_inv_same [OF answer(3)]) simp_all
next
  case (quit s i)
  let ?s1 = "send_to_client (socket (clients s ! i)) ''[INFO] Goodbye!\<newline>'' s"
  have "clients_inv ?s1" by (rule clients_inv_same [OF quit(3)]) simp_all
  from clients_inv_cleanup [OF this, of i] quit(2) show ?case
    by (simp add: client_handler_exit_def commanding_def)
next
  case (disconnect s i)
  then show ?case by (simp add: clients_inv_cleanup commanding_def)
next
  case (resume s i now s')
  then show ?case by (blast intro: clients_inv_resume)
next
  case (take s s')
  from clients_inv_same [OF take(3) clients_take [OF take(2)]] show ?case .
next
  case (deliver s s')
  from clients_inv_same [OF deliver(3) clients_deliver [OF deliver(2)]] show ?case .
next
  case (interrupt s)
  show ?case by (rule clients_inv_same [OF interrupt(2)]) simp_all
qed

lemma clients_inv_init: "clients_inv (main_init port sock)"
  by (simp add: clients_inv_def names_unique_def main_init_def)

lemma reachable_clients_inv: "reachable s \<Longrightarrow> clients_inv s"
  by (induction rule: reachable.induct) (auto intro: clients_inv_init step_clients_inv)









section \<open>Teardown\<close>

lemma find_client_slot:
  assumes "length (clients s) = MAX_CLIENTS" "clients s' = (clients s)[i := c']"
    "Client.active c' = Client.active (clients s ! i)" "username c' = username (clients s ! i)"
  shows "find_client_by_username u s' = find_client_by_username u s"
  unfolding find_client_by_username_def
  by (rule find_cong) (auto simp: assms nth_slot)

lemma find_client_unique:
  assumes "clients_inv s" "i < MAX_CLIENTS" "Client.active (clients s ! i)"
    "username (clients s ! i) \<noteq> []"
  shows "find_client_by_username (username (clients s ! i)) s = Some i"
proof -
  from assms(1) have u: "\<And>j. j < MAX_CLIENTS \<Longrightarrow> j \<noteq> i \<Longrightarrow> Client.active (clients s ! j) \<Longrightarrow>
      username (clients s ! j) \<noteq> username (clients s ! i)"
    using assms(2,3,4) unfolding clients_inv_def names_unique_def by metis
  show ?thesis
    unfolding find_client_by_username_def find_Some_iff
    by (rule exI [of _ i]) (use assms(2,3) u in auto)
qed

lemma find_client_gone:
  assumes "clients_inv s" "i < MAX_CLIENTS" "Client.active (clients s ! i)"
    "username (clients s ! i) \<noteq> []" "clients s' = (clients s)[i := c']" "\<not> Client.active c'"
  shows "find_client_by_username (username (clients s ! i)) s' = None"
proof -
  from assms(1) have l: "length (clients s) = MAX_CLIENTS"
    and u: "\<And>j. j < MAX_CLIENTS \<Longrightarrow> j \<noteq> i \<Longrightarrow> Client.active (clients s ! j) \<Longrightarrow>
      username (clients s ! j) \<noteq> username (clients s ! i)"
    using assms(2,3,4) unfolding clients_inv_def names_unique_def by metis+
  show ?thesis
    unfolding find_client_None
    using u assms(6) by (auto simp: assms(5) nth_slot l)
qed

lemma cleanup_leave_effect:
  "\<exists>x. clients (cleanup_leave i s) = (clients s)[i := (clients s ! i)\<lparr>current_room := x\<rparr>]"
proof (cases "length (current_room (clients s ! i)) > 0")
  case True
  then show ?thesis
    by (auto simp: cleanup_leave_def clients_leave)
next
  case False
  then have "clients (cleanup_leave i s) = clients s"
    by (simp add: cleanup_leave_def)
  moreover have "(clients s)[i := (clients s ! i)\<lparr>current_room := current_room (clients s ! i)\<rparr>]
      = clients s"
    by (simp add: list_update_same_conv)
  ultimately show ?thesis by metis
qed

lemma teardown_states:
  assumes inv: "clients_inv s" and i: "i < MAX_CLIENTS" and a: "Client.active (clients s ! i)"
    and n: "username (clients s ! i) \<noteq> []"
  shows "\<exists>s1 s2 s3 s4 s5.
     cleanup_client_states i s = [s1, s2, s3, s4, s5, cleanup_client i s] \<and>
     socket (clients s1 ! i) = socket (clients s ! i) \<and>
     socket (clients s2 ! i) = socket (clients s ! i) \<and>
     find_client_by_username (username (clients s ! i)) s1 = Some i \<and>
     find_client_by_username (username (clients s ! i)) s2 = Some i \<and>
     trace s3 = trace s2 @ [Close (socket (clients s ! i))] \<and>
     socket (clients s3 ! i) = - 1 \<and>
     find_client_by_username (username (clients s ! i)) s3 = Some i \<and>
     find_client_by_username (username (clients s ! i)) s4 = None \<and>
     find_client_by_username (username (clients s ! i)) s5 = None \<and>
     find_client_by_username (username (clients s ! i)) (cleanup_client i s) = None"
proof -
  let ?c = "clients s ! i" and ?u = "username (clients s ! i)"
  let ?s1 = "cleanup_leave i s"
  let ?s2 = "cleanup_log i ?s1"
  let ?s3 = "cleanup_close i ?s2"
  let ?s4 = "clear_active i ?s3"
  let ?s5 = "clear_username i ?s4"
  from inv have l: "length (clients s) = MAX_CLIENTS"
    and p: "0 \<le> socket ?c"
    using i a unfolding clients_inv_def by blast+
  from cleanup_leave_effect [of i s] obtain x where
    c1: "clients ?s1 = (clients s)[i := ?c\<lparr>current_room := x\<rparr>]" by blast
  have c2: "clients ?s2 = clients ?s1"
    by (simp add: cleanup_log_def Let_def)
  have n1: "clients ?s2 ! i = ?c\<lparr>current_room := x\<rparr>"
    using i l by (simp add: c2 c1)
  have c3: "clients ?s3 = (clients s)[i := ?c\<lparr>current_room := x, socket := - 1\<rparr>]"
    and t3: "trace ?s3 = trace ?s2 @ [Close (socket ?c)]"
    using p by (simp_all add: cleanup_close_def Let_def n1) (simp_all add: c2 c1)
  have c4: "clients ?s4 =
      (clients s)[i := ?c\<lparr>current_room := x, socket := - 1, Client.active := False\<rparr>]"
    using i l by (simp add: clear_active_def c3)
  have c5: "clients ?s5 =
      (clients s)[i := ?c\<lparr>current_room := x, socket := - 1, Client.active := False,
                           username := []\<rparr>]"
    using i l by (simp add: clear_username_def c4)
  have c6: "clients (cleanup_client i s) =
      (clients s)[i := \<lparr>socket = - 1, username = [], current_room = [], addr = addr ?c,
                         active = False\<rparr>]"
    using a by (simp add: clients_cleanup)
  have e: "cleanup_client_states i s = [?s1, ?s2, ?s3, ?s4, ?s5, cleanup_client i s]"
    using a by (simp add: cleanup_client_states_def cleanup_client_def Let_def)
  have f: "find_client_by_username ?u s = Some i"
    by (rule find_client_unique [OF inv i a n])
  have f1: "find_client_by_username ?u ?s1 = Some i"
    using find_client_slot [OF l c1, of ?u] f by simp
  have f2: "find_client_by_username ?u ?s2 = Some i"
    using find_client_slot [OF l c1 [folded c2], of ?u] f by simp
  have f3: "find_client_by_username ?u ?s3 = Some i"
    using find_client_slot [OF l c3, of ?u] f by simp
  have f4: "find_client_by_username ?u ?s4 = None"
    by (rule find_client_gone [OF inv i a n c4]) simp
  have f5: "find_client_by_username ?u ?s5 = None"
    by (rule find_client_gone [OF inv i a n c5]) simp
  have f6: "find_client_by_username ?u (cleanup_client i s) = None"
    by (rule find_client_gone [OF inv i a n c6]) simp
  have k1: "socket (clients ?s1 ! i) = socket ?c" "socket (clients ?s2 ! i) = socket ?c"
    using i l by (simp_all add: c2 c1)
  have k3: "socket (clients ?s3 ! i) = - 1"
    using i l by (simp add: c3)
  from e k1 f1 f2 t3 k3 f3 f4 f5 f6 show ?thesis by blast
qed


text \<open>
  Claim C8, as the code has it. The cleanup of a session that has a name goes through
  six states. In the first two (room left, disconnect logged) the socket is still the
  open one and a lookup of the name finds the session. The third is the state after
  \<^verbatim>\<open>close\<close>: the socket has been closed and is recorded as -1, and a lookup of the name
  still finds the session. Only in the last three (active flag cleared, name cleared, room
  cleared) does a lookup of the name find nothing. So the closing of the stream comes
  before the removal from the registry, not after it.
\<close>

theorem teardown_order:
  assumes "reachable s" "commanding s i"
  shows "\<exists>s1 s2 s3 s4 s5.
     cleanup_client_states i s = [s1, s2, s3, s4, s5, cleanup_client i s] \<and>
     socket (clients s1 ! i) = socket (clients s ! i) \<and>
     socket (clients s2 ! i) = socket (clients s ! i) \<and>
     find_client_by_username (username (clients s ! i)) s1 = Some i \<and>
     find_client_by_username (username (clients s ! i)) s2 = Some i \<and>
     trace s3 = trace s2 @ [Close (socket (clients s ! i))] \<and>
     socket (clients s3 ! i) = - 1 \<and>
     find_client_by_username (username (clients s ! i)) s3 = Some i \<and>
     find_client_by_username (username (clients s ! i)) s4 = None \<and>
     find_client_by_username (username (clients s ! i)) s5 = None \<and>
     find_client_by_username (username (clients s ! i)) (cleanup_client i s) = None"
  using teardown_states [OF reachable_clients_inv [OF assms(1)], of i] assms(2)
  by (simp add: commanding_def)

theorem teardown_order_witness:
  "reachable two_users \<and> commanding two_users 1 \<and>
   length (cleanup_client_states 1 two_users) = 6 \<and>
   last (cleanup_client_states 1 two_users) = cleanup_client 1 two_users \<and>
   find_client_by_username ''bob'' (cleanup_client_states 1 two_users ! 1) = Some 1 \<and>
   socket (clients (cleanup_client_states 1 two_users ! 1) ! 1) = 5 \<and>
   find_client_by_username ''bob'' (cleanup_client_states 1 two_users ! 2) = Some 1 \<and>
   socket (clients (cleanup_client_states 1 two_users ! 2) ! 1) = - 1 \<and>
   find_client_by_username ''bob'' (cleanup_client_states 1 two_users ! 3) = None \<and>
   find_client_by_username ''bob'' (cleanup_client 1 two_users) = None"
proof -
  have c: "commanding two_users 1"
    by (simp add: commanding_def two_users_fields)
  have u: "username (clients two_users ! 1) = ''bob''" "socket (clients two_users ! 1) = 5"
    by (simp_all add: two_users_fields)
  from teardown_order [OF reachable_two_users c, unfolded u] obtain s1 s2 s3 s4 s5 where
    "cleanup_client_states 1 two_users = [s1, s2, s3, s4, s5, cleanup_client 1 two_users]"
    "socket (clients s2 ! 1) = 5"
    "find_client_by_username ''bob'' s2 = Some 1"
    "socket (clients s3 ! 1) = - 1"
    "find_client_by_username ''bob'' s3 = Some 1"
    "find_client_by_username ''bob'' s4 = None"
    "find_client_by_username ''bob'' (cleanup_client 1 two_users) = None"
    by blast
  with reachable_two_users c show ?thesis by simp
qed

text \<open>
  Against claim C8 as it was stated: alice's session is cleaned up. In the third state of
  the cleanup her socket 4 has just been closed, and a lookup of \<open>alice\<close> still returns her
  slot, whose socket is no longer open.
\<close>

theorem teardown_closed_handle_counterexample:
  "find_client_by_username ''alice'' (cleanup_client_states 0 two_users ! 2) = Some 0 \<and>
   socket (clients (cleanup_client_states 0 two_users ! 2) ! 0) = - 1 \<and>
   last (trace (cleanup_client_states 0 two_users ! 2)) = Close 4"
proof -
  have u: "username (clients two_users ! 0) = ''alice''" "socket (clients two_users ! 0) = 4"
    by (simp_all add: two_users_fields)
  have "Client.active (clients two_users ! 0)" "username (clients two_users ! 0) \<noteq> []"
    by (simp_all add: two_users_fields)
  from teardown_states [OF reachable_clients_inv [OF reachable_two_users] _ this, unfolded u]
  obtain s1 s2 s3 s4 s5 where
    "cleanup_client_states 0 two_users = [s1, s2, s3, s4, s5, cleanup_client 0 two_users]"
    "trace s3 = trace s2 @ [Close 4]"
    "socket (clients s3 ! 0) = - 1"
    "find_client_by_username ''alice'' s3 = Some 0"
    by auto
  then show ?thesis by simp
qed

section \<open>Rooms and their members\<close>

























lemma rooms_broadcast_members [simp]: "rooms (broadcast_members ms r m u s) = rooms s"
  by (induction ms r m u s rule: broadcast_members.induct) simp_all

lemma rooms_frame [simp]:
  "rooms (handle_broadcast i m s) = rooms s"
  "rooms (handle_whisper i tg m s) = rooms s"
  "rooms (handle_file_send i f tg rc st now s) = rooms s"
  "rooms (main_accept fd a s) = rooms s"
  "rooms (signal_handler SIGINT s) = rooms s"
proof -
  show "rooms (handle_broadcast i m s) = rooms s"
    by (simp add: handle_broadcast_def broadcast_to_room_def Let_def split: option.split)
  show "rooms (handle_whisper i tg m s) = rooms s"
    by (simp add: handle_whisper_def Let_def split: option.split)
  show "rooms (handle_file_send i f tg rc st now s) = rooms s"
    by (simp add: handle_file_send_def Let_def enqueue_transfer_def)
  show "rooms (main_accept fd a s) = rooms s"
    by (simp add: main_accept_def Let_def split: option.split)
  show "rooms (signal_handler SIGINT s) = rooms s"
    by (simp add: shutdown_effects [THEN conjunct1])
qed










section \<open>A join followed by a leave\<close>








section \<open>Broadcasts\<close>

























end
